theory Spec2Isabelle
  imports Main "HOL-Library.Sublist"
begin

section \<open>Shared vocabulary\<close>

text \<open>
  The storage kinds of \<^verbatim>\<open>storage.ts\<close> (\<^verbatim>\<open>'local' | 'cloud' | 'remote'\<close>), the log levels of
  \<^verbatim>\<open>logger.ts\<close>, and the log lines of the modelled functions. A log line is kept as the
  template that produced it together with the values spliced into it, so that number
  formatting (\<^verbatim>\<open>toFixed\<close>, \<^verbatim>\<open>formatSize\<close>) plays no role.
  A JavaScript exception is the message of its \<^verbatim>\<open>Error\<close>; a function that may throw
  returns \<open>string + 'a\<close> with \<open>Inl\<close> the message.
\<close>

datatype StorageType = Local | Cloud | Remote

datatype level = Info | Warn | Error | Debug

datatype logmsg =
    PathTraversalBlocked string string
  | StartingBackup string
  | ConnectingTo string string
  | FoundVolumes nat
  | SafeStopping string
  | DownloadingVolume string nat nat
  | FailedToDownload string string
  | SafeRestoring string
  | FailedToRestart
  | DownloadComplete
  | Compressing
  | ArchiveCreated nat
  | UploadingTo StorageType
  | BackupCompleted nat nat
  | BackupFailed string
  | FailedToDeleteFile string
  | DeletedBackup nat
  | RetentionDeleting nat

text \<open>
  JavaScript truthiness of a settings value: \<^verbatim>\<open>undefined\<close>, \<^verbatim>\<open>null\<close> (no row, or a NULL
  column) and the empty string are falsy.
\<close>

definition truthy :: "string option \<Rightarrow> bool" where
  "truthy v = (case v of None \<Rightarrow> False | Some s \<Rightarrow> s \<noteq> [])"

section \<open>Storage backends (\<^verbatim>\<open>storage.ts\<close>)\<close>

subsection \<open>Paths\<close>

text \<open>
  \<^verbatim>\<open>path.basename\<close> and \<^verbatim>\<open>path.resolve\<close> are Node's POSIX functions. \<open>basename\<close> drops
  trailing slashes and keeps what follows the last remaining slash. An absolute, normalised
  path is the list of its segments; \<open>resolve base p\<close> is \<^verbatim>\<open>resolve(base, p)\<close> for such a
  \<open>base\<close>: an absolute \<open>p\<close> replaces the base, and the segments of \<open>p\<close> are then applied
  one by one, \<^verbatim>\<open>.\<close> and empty segments doing nothing and \<^verbatim>\<open>..\<close> removing the last segment
  (at the root it removes nothing).
\<close>

type_synonym path = "string list"

definition basename :: "string \<Rightarrow> string" where
  "basename p =
     rev (takeWhile (\<lambda>c. c \<noteq> CHR ''/'') (dropWhile (\<lambda>c. c = CHR ''/'') (rev p)))"

definition segments :: "string \<Rightarrow> string list" where
  "segments p =
     foldr (\<lambda>c acc. if c = CHR ''/'' then [] # acc else (c # hd acc) # tl acc) p [[]]"

definition normSeg :: "path \<Rightarrow> string \<Rightarrow> path" where
  "normSeg acc s =
     (if s = [] \<or> s = ''.'' then acc
      else if s = ''..'' then butlast acc
      else acc @ [s])"

definition resolve :: "path \<Rightarrow> string \<Rightarrow> path" where
  "resolve base p =
     (if p \<noteq> [] \<and> hd p = CHR ''/'' then foldl normSeg [] (segments p)
      else foldl normSeg base (segments p))"

subsection \<open>LocalStorage\<close>

text \<open>
  The local disk is a map from absolute paths to what is there: a regular file or a
  directory, each with the size \<^verbatim>\<open>statSync\<close> reports. \<^verbatim>\<open>existsSync\<close> is definedness,
  and unlinking a directory throws. \<^verbatim>\<open>upload\<close> and \<^verbatim>\<open>download\<close> copy a stream between a
  path of the caller and the path \<^verbatim>\<open>resolve(basePath, sanitizeFilename(filename))\<close>, the
  path \<^verbatim>\<open>delete\<close>, \<^verbatim>\<open>exists\<close> and \<^verbatim>\<open>getSize\<close> build; the three that read the disk
  without streams are given here.
\<close>

datatype fsnode = File nat | Dir nat

fun nodeSize :: "fsnode \<Rightarrow> nat" where
  "nodeSize (File n) = n"
| "nodeSize (Dir n) = n"

record local_state =
  basePath :: path
  fs :: "path \<Rightarrow> fsnode option"
  logged :: "(level \<times> logmsg) list"

definition sanitizeFilename :: "string \<Rightarrow> local_state \<Rightarrow> string \<times> local_state" where
  "sanitizeFilename filename s =
     (let safe = basename filename
      in (safe,
          if safe = [] \<or> safe \<noteq> filename
          then s\<lparr>logged := logged s @ [(Warn, PathTraversalBlocked filename safe)]\<rparr>
          else s))"

definition LocalStorage_delete ::
  "string \<Rightarrow> local_state \<Rightarrow> (string + unit) \<times> local_state" where
  "LocalStorage_delete filename s =
     (case sanitizeFilename filename s of (safeFilename, s1) \<Rightarrow>
        (let filePath = resolve (basePath s1) safeFilename
         in case fs s1 filePath of
              None \<Rightarrow> (Inr (), s1)
            | Some (Dir d) \<Rightarrow> (Inl ''EISDIR'', s1)
            | Some (File n) \<Rightarrow> (Inr (), s1\<lparr>fs := (fs s1)(filePath := None)\<rparr>)))"

definition LocalStorage_exists :: "string \<Rightarrow> local_state \<Rightarrow> bool \<times> local_state" where
  "LocalStorage_exists filename s =
     (case sanitizeFilename filename s of (safeFilename, s1) \<Rightarrow>
        (fs s1 (resolve (basePath s1) safeFilename) \<noteq> None, s1))"

definition LocalStorage_getSize :: "string \<Rightarrow> local_state \<Rightarrow> nat \<times> local_state" where
  "LocalStorage_getSize filename s =
     (case sanitizeFilename filename s of (safeFilename, s1) \<Rightarrow>
        (let filePath = resolve (basePath s1) safeFilename
         in (case fs s1 filePath of None \<Rightarrow> 0 | Some n \<Rightarrow> nodeSize n, s1)))"

subsection \<open>S3Storage\<close>

text \<open>
  The settings table is a map from keys to values. The request sent to the object store
  is outside the program: \<open>head\<close> gives, for a client, a bucket and a key, the error the
  \<^verbatim>\<open>HeadObjectCommand\<close> fails with or the \<^verbatim>\<open>ContentLength\<close> of the answer (which may be
  absent).
\<close>

type_synonym settings = "string \<Rightarrow> string option"

record s3conf =
  endpoint :: "string option"
  bucket :: "string option"
  region :: "string option"
  accessKey :: "string option"
  secretKey :: "string option"

record s3client =
  clientEndpoint :: "string option"
  clientRegion :: string
  accessKeyId :: string
  secretAccessKey :: "string option"

definition S3_getConfig :: "settings \<Rightarrow> s3conf" where
  "S3_getConfig st =
     \<lparr>endpoint = st ''s3_endpoint'', bucket = st ''s3_bucket'', region = st ''s3_region'',
      accessKey = st ''s3_access_key'', secretKey = st ''s3_secret_key''\<rparr>"

definition S3_getClient :: "settings \<Rightarrow> string + s3client" where
  "S3_getClient st =
     (let conf = S3_getConfig st
      in if truthy (bucket conf) \<and> truthy (accessKey conf)
         then Inr \<lparr>clientEndpoint =
                      (case endpoint conf of
                         None \<Rightarrow> None
                       | Some e \<Rightarrow>
                           if e = [] then None
                           else if prefix ''http://'' e then Some e
                           else if prefix ''https://'' e then Some e
                           else Some (''https://'' @ e)),
                    clientRegion = (if truthy (region conf) then the (region conf) else ''us-east-1''),
                    accessKeyId = the (accessKey conf),
                    secretAccessKey = secretKey conf\<rparr>
         else Inl ''S3 Configuration missing in database'')"

definition S3Storage_getSize ::
  "settings \<Rightarrow> (s3client \<Rightarrow> string option \<Rightarrow> string \<Rightarrow> string + nat option) \<Rightarrow> string \<Rightarrow> nat" where
  "S3Storage_getSize st head filename =
     (let conf = S3_getConfig st
      in case S3_getClient st of
           Inl e \<Rightarrow> 0
         | Inr client \<Rightarrow>
             (case head client (bucket conf) filename of
                Inl e \<Rightarrow> 0
              | Inr None \<Rightarrow> 0
              | Inr (Some contentLength) \<Rightarrow> contentLength))"

subsection \<open>SftpStorage\<close>

text \<open>
  \<open>connect\<close> gives, for a host, a port, a user and a password, the error the connection
  fails with, if it does; \<open>stat\<close> the error or the size for a remote path. The port is
  handed to \<open>connect\<close> as the settings table holds it. Closing the client (\<^verbatim>\<open>client.end()\<close>) is
  taken to succeed.
\<close>

definition Sftp_getClient ::
  "settings \<Rightarrow> (string \<Rightarrow> string option \<Rightarrow> string \<Rightarrow> string option \<Rightarrow> string option)
     \<Rightarrow> string + unit" where
  "Sftp_getClient st connect =
     (if truthy (st ''sftp_host'') \<and> truthy (st ''sftp_user'')
      then (case connect (the (st ''sftp_host'')) (st ''sftp_port'') (the (st ''sftp_user''))
                   (if truthy (st ''sftp_pass'') then st ''sftp_pass'' else None) of
              Some e \<Rightarrow> Inl e
            | None \<Rightarrow> Inr ())
      else Inl ''SFTP Configuration missing in database'')"

definition Sftp_getPath :: "settings \<Rightarrow> string" where
  "Sftp_getPath st = (if truthy (st ''sftp_path'') then the (st ''sftp_path'') else ''/'')"

definition SftpStorage_getSize ::
  "settings \<Rightarrow> (string \<Rightarrow> string option \<Rightarrow> string \<Rightarrow> string option \<Rightarrow> string option)
     \<Rightarrow> (string \<Rightarrow> string + nat) \<Rightarrow> string \<Rightarrow> string + nat" where
  "SftpStorage_getSize st connect stat filename =
     (case Sftp_getClient st connect of
        Inl e \<Rightarrow> Inl e
      | Inr client \<Rightarrow>
          (case stat (Sftp_getPath st @ ''/'' @ filename) of
             Inl e \<Rightarrow> Inr 0
           | Inr sz \<Rightarrow> Inr sz))"

section \<open>The record store (\<^verbatim>\<open>db.ts\<close>)\<close>

text \<open>
  A row of the \<^verbatim>\<open>backups\<close> table, with the columns of the schema (\<open>backup_id\<close> is the
  column \<^verbatim>\<open>id\<close>, \<open>size_bytes\<close> the column \<^verbatim>\<open>size\<close>). \<open>created_at\<close> is the time
  \<^verbatim>\<open>new Date(created_at).getTime()\<close> gives for the column, which is what both the
  \<^verbatim>\<open>ORDER BY\<close> of \<^verbatim>\<open>getByNode\<close> and the comparator of the retention sort order rows by.
\<close>

datatype Status = Pending | Running | Completed | Failed

record backup =
  backup_id :: nat
  node_id :: nat
  volume_name :: string
  filename :: string
  size_bytes :: nat
  storage_type :: StorageType
  storage_path :: "string option"
  status :: Status
  progress :: nat
  error_message :: "string option"
  started_at :: "string option"
  completed_at :: "string option"
  created_at :: int

record node =
  name :: string
  host :: string
  volumes_path :: "string option"

datatype signal = Start | Stop | Restart | Kill

datatype scratch = TempDir nat | VolDir nat string | TempFile string

text \<open>The calls the program makes to the outside, in the order it makes them.\<close>

datatype event =
    EvConnect string
  | EvList string
  | EvMkdir scratch
  | EvGetServerState string
  | EvSetServerState string signal
  | EvDownloadDir string string
  | EvEnd
  | EvArchive
  | EvStat
  | EvUpload StorageType string
  | EvRm scratch
  | EvUnlink scratch
  | EvStorageDelete StorageType string

datatype webhookType = WSuccess | WError | WWarning | WInfo

datatype fieldval = TextVal string | StorageVal StorageType | SizeVal nat | DurationVal nat

text \<open>
  The state the orchestration works on: the tables, the console, the notifications
  posted, the calls made, whether the session to the node that the current run opened is
  open, and the artifacts the storage backends hold. \<open>history\<close> keeps the \<^verbatim>\<open>backups\<close>
  table as it stood after each statement that wrote to it.
\<close>

record world =
  nodes :: "nat \<Rightarrow> node option"
  settings_tbl :: settings
  backups :: "backup list"
  next_backup_id :: nat
  backup_logs :: "(nat \<times> level \<times> logmsg) list"
  console :: "(level \<times> logmsg) list"
  webhooks :: "(webhookType \<times> string \<times> string \<times> (string \<times> fieldval) list) list"
  events :: "event list"
  session_open :: bool
  artifacts :: "(StorageType \<times> string) list"
  history :: "backup list list"

text \<open>
  What the outside answers during one run: for each call that can fail, the error it
  fails with or its result. \<open>getServerState_r vol k\<close> answers the \<open>k\<close>-th state query for
  volume \<open>vol\<close> within one iteration of the download loop.
\<close>

record env =
  volumesPath :: string
  ts_filename :: string
  ts_started :: string
  ts_completed :: string
  created_now :: int
  duration_ms :: nat
  connect_r :: "string option"
  list_r :: "string + (char \<times> string) list"
  mkdir_r :: "scratch \<Rightarrow> string option"
  getServerState_r :: "string \<Rightarrow> nat \<Rightarrow> string + string option"
  setServerState_r :: "string \<Rightarrow> signal \<Rightarrow> string + bool"
  downloadDir_r :: "string \<Rightarrow> string option"
  archive_r :: "string option"
  stat_r :: "string + nat"
  upload_r :: "string + string"
  rm_r :: "string option"
  unlink_r :: "string option"
  backend_delete_r :: "StorageType \<Rightarrow> string \<Rightarrow> string option"

text \<open>
  The statements of \<^verbatim>\<open>backupRepo\<close>. Every statement that writes to the table goes through
  \<open>commit\<close>, which stores the new table and appends it to \<open>history\<close>. An \<^verbatim>\<open>UPDATE\<close> changes
  the rows with the given identifier and no other; the columns it sets are given as a
  function on rows. \<^verbatim>\<open>create\<close> takes the next identifier and fills the columns it does not
  set with the defaults of the schema. Rows with equal \<open>created_at\<close> are listed by
  \<^verbatim>\<open>getByNode\<close> in the order of the table.
\<close>

definition commit :: "backup list \<Rightarrow> world \<Rightarrow> world" where
  "commit t w = w\<lparr>backups := t, history := history w @ [t]\<rparr>"

definition backupRepo_getById :: "nat \<Rightarrow> world \<Rightarrow> backup option" where
  "backupRepo_getById i w = find (\<lambda>b. backup_id b = i) (backups w)"

definition backupRepo_getByNode :: "nat \<Rightarrow> world \<Rightarrow> backup list" where
  "backupRepo_getByNode nid w =
     sort_key (\<lambda>b. - created_at b) (filter (\<lambda>b. node_id b = nid) (backups w))"

definition backupRepo_create ::
  "env \<Rightarrow> nat \<Rightarrow> string \<Rightarrow> string \<Rightarrow> StorageType \<Rightarrow> Status \<Rightarrow> world \<Rightarrow> nat \<times> world" where
  "backupRepo_create e nid vol fname stype st w =
     (let i = next_backup_id w
      in (i, commit (backups w @
                [\<lparr>backup_id = i, node_id = nid, volume_name = vol, filename = fname,
                  size_bytes = 0, storage_type = stype, storage_path = None, status = st,
                  progress = 0, error_message = None, started_at = Some (ts_started e),
                  completed_at = None, created_at = created_now e\<rparr>])
              (w\<lparr>next_backup_id := Suc i\<rparr>)))"

definition backupRepo_update :: "nat \<Rightarrow> (backup \<Rightarrow> backup) \<Rightarrow> world \<Rightarrow> world" where
  "backupRepo_update i upd w =
     commit (map (\<lambda>b. if backup_id b = i then upd b else b) (backups w)) w"

definition backupRepo_updateProgress :: "nat \<Rightarrow> nat \<Rightarrow> world \<Rightarrow> world" where
  "backupRepo_updateProgress i p w = backupRepo_update i (\<lambda>b. b\<lparr>progress := p\<rparr>) w"

definition backupRepo_fail :: "nat \<Rightarrow> string \<Rightarrow> world \<Rightarrow> world" where
  "backupRepo_fail i err w =
     backupRepo_update i (\<lambda>b. b\<lparr>status := Failed, error_message := Some err, progress := 0\<rparr>) w"

definition backupRepo_delete :: "nat \<Rightarrow> world \<Rightarrow> world" where
  "backupRepo_delete i w =
     commit (filter (\<lambda>b. backup_id b \<noteq> i) (backups w))
       (w\<lparr>backup_logs := filter (\<lambda>l. fst l \<noteq> i) (backup_logs w)\<rparr>)"

section \<open>The pipeline (\<^verbatim>\<open>backup.ts\<close>)\<close>

record BackupOptions =
  nodeId :: nat
  volumeName :: "string option"
  storageType :: StorageType
  backupId :: "nat option"

definition emit :: "event \<Rightarrow> world \<Rightarrow> world" where
  "emit ev w = w\<lparr>events := events w @ [ev]\<rparr>"

definition logLine :: "level \<Rightarrow> logmsg \<Rightarrow> world \<Rightarrow> world" where
  "logLine lvl m w = w\<lparr>console := console w @ [(lvl, m)]\<rparr>"

text \<open>
  \<^verbatim>\<open>backupLog\<close> writes the line to the console and then inserts it into \<^verbatim>\<open>backup_logs\<close>.
  The insert is refused (\<^verbatim>\<open>FOREIGN KEY constraint failed\<close>, foreign keys being enforced
  by default in \<^verbatim>\<open>better-sqlite3\<close>) when no record has the identifier. In a run this can
  happen at the first line only, before the \<^verbatim>\<open>try\<close> block, for an identifier handed in
  that has no record: from then on the record is there, no step of the run deletes it.
  So \<open>backupLog\<close> is the insert that succeeds, and \<open>createBackup\<close> below raises at its
  first line when the record is missing.
\<close>

definition backupLog :: "nat \<Rightarrow> level \<Rightarrow> logmsg \<Rightarrow> world \<Rightarrow> world" where
  "backupLog i lvl m w = (logLine lvl m w)\<lparr>backup_logs := backup_logs w @ [(i, lvl, m)]\<rparr>"

text \<open>
  \<^verbatim>\<open>sendWebhook\<close> (\<^verbatim>\<open>webhook.ts\<close>) returns at once when no webhook URL is configured and
  posts the notification otherwise; a failure of the post is caught there.
\<close>

definition sendWebhook ::
  "webhookType \<Rightarrow> string \<Rightarrow> string \<Rightarrow> (string \<times> fieldval) list \<Rightarrow> world \<Rightarrow> world" where
  "sendWebhook ty title description flds w =
     (if truthy (settings_tbl w ''discord_webhook_url'')
      then w\<lparr>webhooks := webhooks w @ [(ty, title, description, flds)]\<rparr>
      else w)"

text \<open>
  The test \<^verbatim>\<open>/^[0-9a-f]{8}-[0-9a-f]{4}-[0-9a-f]{4}-[0-9a-f]{4}-[0-9a-f]{12}$/i\<close>.
\<close>

definition isHexDigit :: "char \<Rightarrow> bool" where
  "isHexDigit c = (c \<in> set ''0123456789abcdefABCDEF'')"

definition isUuid :: "string \<Rightarrow> bool" where
  "isUuid s =
     (length s = 36
      \<and> list_all isHexDigit (take 8 s) \<and> s ! 8 = CHR ''-''
      \<and> list_all isHexDigit (take 4 (drop 9 s)) \<and> s ! 13 = CHR ''-''
      \<and> list_all isHexDigit (take 4 (drop 14 s)) \<and> s ! 18 = CHR ''-''
      \<and> list_all isHexDigit (take 4 (drop 19 s)) \<and> s ! 23 = CHR ''-''
      \<and> list_all isHexDigit (take 12 (drop 24 s)))"

text \<open>
  The wait for \<^verbatim>\<open>offline\<close>: at most \<open>n\<close> further state queries, stopping at the first
  that answers \<^verbatim>\<open>offline\<close>. A query that throws leaves the loop for the enclosing
  \<^verbatim>\<open>catch\<close>, which ignores the error.
\<close>

fun waitOffline :: "env \<Rightarrow> string \<Rightarrow> nat \<Rightarrow> nat \<Rightarrow> world \<Rightarrow> world" where
  "waitOffline e vol 0 k w = w"
| "waitOffline e vol (Suc n) k w =
     (let w1 = emit (EvGetServerState vol) w
      in case getServerState_r e vol k of
           Inl err \<Rightarrow> w1
         | Inr newState \<Rightarrow>
             if newState = Some ''offline'' then w1 else waitOffline e vol n (Suc k) w1)"

text \<open>
  The safe-stop block of one volume; the result is \<^verbatim>\<open>wasRunning\<close>, which is set before
  the stop signal is sent.
\<close>

definition safeStop :: "env \<Rightarrow> nat \<Rightarrow> string \<Rightarrow> world \<Rightarrow> bool \<times> world" where
  "safeStop e bid vol w =
     (let w1 = emit (EvGetServerState vol) w
      in case getServerState_r e vol 0 of
           Inl err \<Rightarrow> (False, w1)
         | Inr state \<Rightarrow>
             if truthy state \<and> state \<noteq> Some ''offline''
             then (let w2 = backupLog bid Info (SafeStopping vol) w1;
                       w3 = emit (EvSetServerState vol Stop) w2
                   in case setServerState_r e vol Stop of
                        Inl err \<Rightarrow> (True, w3)
                      | Inr accepted \<Rightarrow> (True, waitOffline e vol 12 1 w3))
             else (False, w1))"

definition safeStart :: "env \<Rightarrow> nat \<Rightarrow> string \<Rightarrow> world \<Rightarrow> world" where
  "safeStart e bid vol w =
     (let w1 = backupLog bid Info (SafeRestoring vol) w;
          w2 = emit (EvSetServerState vol Start) w1
      in case setServerState_r e vol Start of
           Inl err \<Rightarrow> backupLog bid Warn FailedToRestart w2
         | Inr accepted \<Rightarrow> w2)"

text \<open>
  One iteration of the download loop, for the volume at index \<open>i\<close> of \<open>n\<close>: the scratch
  directory, the safe stop when the name has the form of a server identifier, the
  download (a failure is logged as a warning), the safe start when \<^verbatim>\<open>wasRunning\<close> is
  set, and the progress \<^verbatim>\<open>15 + Math.floor(((i + 1) / n) * 60)\<close>, taken in exact
  arithmetic.
\<close>

definition stopPhase :: "env \<Rightarrow> nat \<Rightarrow> string \<Rightarrow> world \<Rightarrow> bool \<times> world" where
  "stopPhase e bid vol w = (if isUuid vol then safeStop e bid vol w else (False, w))"

definition downloadPhase ::
  "env \<Rightarrow> nat \<Rightarrow> string \<Rightarrow> nat \<Rightarrow> nat \<Rightarrow> string \<Rightarrow> world \<Rightarrow> world" where
  "downloadPhase e bid vpath n i vol w =
     (let w1 = backupLog bid Info (DownloadingVolume vol (i + 1) n) w;
          w2 = emit (EvDownloadDir vpath vol) w1
      in case downloadDir_r e vol of
           Some err \<Rightarrow> backupLog bid Warn (FailedToDownload vol err) w2
         | None \<Rightarrow> w2)"

definition startPhase :: "env \<Rightarrow> nat \<Rightarrow> string \<Rightarrow> bool \<Rightarrow> world \<Rightarrow> world" where
  "startPhase e bid vol wasRunning w = (if wasRunning then safeStart e bid vol w else w)"

definition volumeProgress :: "nat \<Rightarrow> nat \<Rightarrow> nat" where
  "volumeProgress i n = 15 + ((i + 1) * 60) div n"

definition processVolume ::
  "env \<Rightarrow> nat \<Rightarrow> string \<Rightarrow> nat \<Rightarrow> nat \<Rightarrow> string \<Rightarrow> world \<Rightarrow> string option \<times> world" where
  "processVolume e bid vpath n i vol w =
     (let w1 = emit (EvMkdir (VolDir bid vol)) w
      in case mkdir_r e (VolDir bid vol) of
           Some err \<Rightarrow> (Some err, w1)
         | None \<Rightarrow>
             (case stopPhase e bid vol w1 of
                (wasRunning, w2) \<Rightarrow>
                  (None,
                   backupRepo_updateProgress bid (volumeProgress i n)
                     (startPhase e bid vol wasRunning
                        (downloadPhase e bid vpath n i vol w2)))))"

fun downloadVolumes ::
  "env \<Rightarrow> nat \<Rightarrow> string \<Rightarrow> nat \<Rightarrow> nat \<Rightarrow> string list \<Rightarrow> world \<Rightarrow> string option \<times> world" where
  "downloadVolumes e bid vpath n i [] w = (None, w)"
| "downloadVolumes e bid vpath n i (vol # vols) w =
     (case processVolume e bid vpath n i vol w of
        (Some err, w1) \<Rightarrow> (Some err, w1)
      | (None, w1) \<Rightarrow> downloadVolumes e bid vpath n (Suc i) vols w1)"

text \<open>
  Connecting to the node and finding the volumes (the start of the \<^verbatim>\<open>try\<close> block). Of a
  listing, the directories whose name does not start with a dot are the volumes.
\<close>

definition volumeDirs :: "(char \<times> string) list \<Rightarrow> string list" where
  "volumeDirs entries =
     map snd (filter (\<lambda>f. fst f = CHR ''d'' \<and> \<not> prefix ''.'' (snd f)) entries)"

definition connectAndList ::
  "env \<Rightarrow> node \<Rightarrow> string \<Rightarrow> nat \<Rightarrow> string \<Rightarrow> world \<Rightarrow> (string + string list) \<times> world" where
  "connectAndList e nd vpath bid volName w =
     (let w1 = backupLog bid Info (ConnectingTo (name nd) (host nd)) w;
          w2 = emit (EvConnect (host nd)) w1
      in case connect_r e of
           Some err \<Rightarrow> (Inl err, w2)
         | None \<Rightarrow>
             (let w3 = backupRepo_updateProgress bid 10 (w2\<lparr>session_open := True\<rparr>)
              in if volName = ''all-volumes''
                 then (let w4 = emit (EvList vpath) w3
                       in case list_r e of
                            Inl err \<Rightarrow> (Inl err, w4)
                          | Inr entries \<Rightarrow>
                              (let volumes = volumeDirs entries
                               in (Inr volumes,
                                   backupRepo_updateProgress bid 15
                                     (backupLog bid Info (FoundVolumes (length volumes)) w4))))
                 else (Inr [volName], backupRepo_updateProgress bid 15 w3)))"

text \<open>
  After the loop: the session is closed (\<^verbatim>\<open>client.end()\<close>, taken to succeed), the scratch
  tree is archived and the size of the archive read, the archive is uploaded through the
  backend of the run, the scratch directory and the archive are removed, and the record
  is completed. Each of archiving, reading the size, uploading and the two removals can
  throw.
\<close>

definition closeSession :: "nat \<Rightarrow> world \<Rightarrow> world" where
  "closeSession bid w =
     backupRepo_updateProgress bid 75
       (backupLog bid Info DownloadComplete ((emit EvEnd w)\<lparr>session_open := False\<rparr>))"

definition archiveStep :: "env \<Rightarrow> nat \<Rightarrow> world \<Rightarrow> (string + nat) \<times> world" where
  "archiveStep e bid w =
     (let w1 = emit EvArchive (backupLog bid Info Compressing w)
      in case archive_r e of
           Some err \<Rightarrow> (Inl err, w1)
         | None \<Rightarrow>
             (let w2 = emit EvStat w1
              in case stat_r e of
                   Inl err \<Rightarrow> (Inl err, w2)
                 | Inr fileSize \<Rightarrow>
                     (Inr fileSize,
                      backupRepo_updateProgress bid 85
                        (backupLog bid Info (ArchiveCreated fileSize) w2))))"

definition uploadStep ::
  "env \<Rightarrow> BackupOptions \<Rightarrow> string \<Rightarrow> nat \<Rightarrow> world \<Rightarrow> (string + string) \<times> world" where
  "uploadStep e opts fname bid w =
     (let w1 = emit (EvUpload (storageType opts) fname)
                 (backupLog bid Info (UploadingTo (storageType opts)) w)
      in case upload_r e of
           Inl err \<Rightarrow> (Inl err, w1)
         | Inr storagePath \<Rightarrow>
             (Inr storagePath,
              backupRepo_updateProgress bid 95
                (w1\<lparr>artifacts := artifacts w1 @ [(storageType opts, fname)]\<rparr>)))"

definition cleanup :: "env \<Rightarrow> nat \<Rightarrow> string \<Rightarrow> world \<Rightarrow> string option \<times> world" where
  "cleanup e bid fname w =
     (let w1 = emit (EvRm (TempDir bid)) w
      in case rm_r e of
           Some err \<Rightarrow> (Some err, w1)
         | None \<Rightarrow> (unlink_r e, emit (EvUnlink (TempFile fname)) w1))"

definition completeRun ::
  "env \<Rightarrow> node \<Rightarrow> string \<Rightarrow> string \<Rightarrow> nat \<Rightarrow> string \<Rightarrow> nat \<Rightarrow> world \<Rightarrow> world" where
  "completeRun e nd volName fname bid storagePath fileSize w =
     sendWebhook WSuccess ''Backup Completed'' (''**'' @ name nd @ ''** - '' @ volName)
       [(''Size'', SizeVal fileSize), (''Duration'', DurationVal (duration_ms e div 1000)),
        (''Filename'', TextVal fname)]
       (backupLog bid Info (BackupCompleted fileSize (duration_ms e div 1000))
          (backupRepo_update bid
             (\<lambda>b. b\<lparr>storage_path := Some storagePath, size_bytes := fileSize,
                     status := Completed, progress := 100,
                     completed_at := Some (ts_completed e)\<rparr>) w))"

definition archiveAndUpload ::
  "env \<Rightarrow> node \<Rightarrow> BackupOptions \<Rightarrow> string \<Rightarrow> string \<Rightarrow> nat \<Rightarrow> world \<Rightarrow> string option \<times> world" where
  "archiveAndUpload e nd opts volName fname bid w =
     (case archiveStep e bid (closeSession bid w) of
        (Inl err, w1) \<Rightarrow> (Some err, w1)
      | (Inr fileSize, w1) \<Rightarrow>
          (case uploadStep e opts fname bid w1 of
             (Inl err, w2) \<Rightarrow> (Some err, w2)
           | (Inr storagePath, w2) \<Rightarrow>
               (case cleanup e bid fname w2 of
                  (Some err, w3) \<Rightarrow> (Some err, w3)
                | (None, w3) \<Rightarrow>
                    (None, completeRun e nd volName fname bid storagePath fileSize w3))))"

text \<open>The \<^verbatim>\<open>try\<close> block of \<^verbatim>\<open>createBackup\<close>.\<close>

definition tryBlock ::
  "env \<Rightarrow> node \<Rightarrow> BackupOptions \<Rightarrow> string \<Rightarrow> string \<Rightarrow> nat \<Rightarrow> world \<Rightarrow> string option \<times> world" where
  "tryBlock e nd opts volName fname bid w =
     (let vpath = (if truthy (volumes_path nd) then the (volumes_path nd) else volumesPath e)
      in case connectAndList e nd vpath bid volName w of
           (Inl err, w1) \<Rightarrow> (Some err, w1)
         | (Inr volumes, w1) \<Rightarrow>
             (let w2 = emit (EvMkdir (TempDir bid)) w1
              in case mkdir_r e (TempDir bid) of
                   Some err \<Rightarrow> (Some err, w2)
                 | None \<Rightarrow>
                     (case downloadVolumes e bid vpath (length volumes) 0 volumes w2 of
                        (Some err, w3) \<Rightarrow> (Some err, w3)
                      | (None, w3) \<Rightarrow> archiveAndUpload e nd opts volName fname bid w3)))"

text \<open>
  The \<^verbatim>\<open>catch\<close> block: the record is failed with the whole message, the error line is
  logged, and the notification carries the first 200 characters of the message.
\<close>

definition catchBlock :: "node \<Rightarrow> string \<Rightarrow> nat \<Rightarrow> string \<Rightarrow> world \<Rightarrow> world" where
  "catchBlock nd volName bid msg w =
     sendWebhook WError ''Backup Failed'' (''**'' @ name nd @ ''** - '' @ volName)
       [(''Error'', TextVal (take 200 msg))]
       (backupLog bid Error (BackupFailed msg) (backupRepo_fail bid msg w))"

definition selectorOf :: "BackupOptions \<Rightarrow> string" where
  "selectorOf opts = (if truthy (volumeName opts) then the (volumeName opts) else ''all-volumes'')"

definition artifactName :: "env \<Rightarrow> node \<Rightarrow> string \<Rightarrow> string" where
  "artifactName e nd volName =
     name nd @ ''-'' @ volName @ ''-''
       @ map (\<lambda>c. if c = CHR '':'' \<or> c = CHR ''.'' then CHR ''-'' else c) (ts_filename e)
       @ ''.tar.gz''"

text \<open>
  Entering \<^verbatim>\<open>running\<close>: a record handed in by its identifier (a truthy \<^verbatim>\<open>backupId\<close>) is
  updated, otherwise a record is created.
\<close>

definition enterRunning ::
  "env \<Rightarrow> BackupOptions \<Rightarrow> string \<Rightarrow> string \<Rightarrow> world \<Rightarrow> nat \<times> world" where
  "enterRunning e opts volName fname w =
     (case backupId opts of
        None \<Rightarrow> backupRepo_create e (nodeId opts) volName fname (storageType opts) Running w
      | Some b \<Rightarrow>
          if b = 0
          then backupRepo_create e (nodeId opts) volName fname (storageType opts) Running w
          else (b, backupRepo_update b
                     (\<lambda>r. r\<lparr>filename := fname, status := Running,
                             started_at := Some (ts_started e)\<rparr>) w))"

text \<open>
  \<^verbatim>\<open>createBackup\<close>. The first log line, written before the \<^verbatim>\<open>try\<close> block, reaches the
  console and is then refused by the log table when the record is missing; that error is
  not caught. Otherwise the run is the \<^verbatim>\<open>try\<close> block, and the \<^verbatim>\<open>catch\<close> block on an error.
\<close>

definition createBackup :: "env \<Rightarrow> BackupOptions \<Rightarrow> world \<Rightarrow> (string + nat) \<times> world" where
  "createBackup e opts w =
     (case nodes w (nodeId opts) of
        None \<Rightarrow> (Inl ''Node not found'', w)
      | Some nd \<Rightarrow>
          (let volName = selectorOf opts;
               fname = artifactName e nd volName
           in case enterRunning e opts volName fname w of
                (bid, w1) \<Rightarrow>
                  if backupRepo_getById bid w1 = None
                  then (Inl ''FOREIGN KEY constraint failed'',
                        logLine Info (StartingBackup fname) w1)
                  else
                    (let w2 = backupRepo_updateProgress bid 5
                                (backupLog bid Info (StartingBackup fname) w1);
                         w3 = sendWebhook WInfo ''Backup Started''
                                (''**'' @ name nd @ ''** - '' @ volName)
                                [(''Storage Type'', StorageVal (storageType opts))] w2
                     in case tryBlock e nd opts volName fname bid w3 of
                          (None, w4) \<Rightarrow> (Inr bid, w4)
                        | (Some msg, w4) \<Rightarrow> (Inl msg, catchBlock nd volName bid msg w4))))"

text \<open>
  \<^verbatim>\<open>deleteBackup\<close>: the artifact is deleted from the storage backend of the run (a failure
  is logged as a warning), then the record is deleted.
\<close>

definition deleteBackup :: "env \<Rightarrow> nat \<Rightarrow> world \<Rightarrow> (string + unit) \<times> world" where
  "deleteBackup e i w =
     (case backupRepo_getById i w of
        None \<Rightarrow> (Inl ''Backup not found'', w)
      | Some b \<Rightarrow>
          (let w1 = emit (EvStorageDelete (storage_type b) (filename b)) w;
               w2 = (case backend_delete_r e (storage_type b) (filename b) of
                       Some err \<Rightarrow> logLine Warn (FailedToDeleteFile err) w1
                     | None \<Rightarrow>
                         w1\<lparr>artifacts :=
                              filter (\<lambda>a. a \<noteq> (storage_type b, filename b)) (artifacts w1)\<rparr>)
           in (Inr (), logLine Info (DeletedBackup i) (backupRepo_delete i w2))))"

section \<open>Retention (\<^verbatim>\<open>scheduler.ts\<close>)\<close>

text \<open>\<^verbatim>\<open>xs.slice(k)\<close> for an integer \<open>k\<close>: a negative \<open>k\<close> counts from the end.\<close>

definition slice_from :: "int \<Rightarrow> 'a list \<Rightarrow> 'a list" where
  "slice_from k xs =
     (if k < 0 then drop (nat (max (int (length xs) + k) 0)) xs else drop (nat k) xs)"

definition retentionCandidates :: "nat \<Rightarrow> StorageType \<Rightarrow> world \<Rightarrow> backup list" where
  "retentionCandidates nid stype w =
     sort_key (\<lambda>b. - created_at b)
       (filter (\<lambda>b. storage_type b = stype \<and> status b = Completed) (backupRepo_getByNode nid w))"

definition retentionDelete :: "world \<Rightarrow> backup \<Rightarrow> world" where
  "retentionDelete w b =
     backupRepo_delete (backup_id b) (logLine Info (RetentionDeleting (backup_id b)) w)"

definition applyRetention :: "nat \<Rightarrow> StorageType \<Rightarrow> int \<Rightarrow> world \<Rightarrow> world" where
  "applyRetention nid stype keep w =
     (let bs = retentionCandidates nid stype w
      in if int (length bs) > keep then foldl retentionDelete w (slice_from keep bs) else w)"


section \<open>Vocabulary of the properties\<close>

subsection \<open>The record invariant\<close>

text \<open>
  A record satisfies the invariant when its storage path is set exactly when its status
  is \<^verbatim>\<open>completed\<close>, and its status is \<^verbatim>\<open>completed\<close> exactly when its progress is 100. A
  table satisfies it when every record does; \<open>hist_ok\<close> says so of the table and of every
  state the table has been in. \<open>open_run bid\<close> says that the records with identifier \<open>bid\<close>
  are not completed and have no storage path.
\<close>

definition run_inv :: "backup \<Rightarrow> bool" where
  "run_inv r = (((storage_path r \<noteq> None) = (status r = Completed))
                \<and> ((status r = Completed) = (progress r = 100)))"

definition table_inv :: "backup list \<Rightarrow> bool" where
  "table_inv t = list_all run_inv t"

definition hist_ok :: "world \<Rightarrow> bool" where
  "hist_ok w = (list_all table_inv (history w) \<and> table_inv (backups w))"

definition open_run :: "nat \<Rightarrow> world \<Rightarrow> bool" where
  "open_run bid w =
     list_all (\<lambda>r. backup_id r = bid \<longrightarrow> status r \<noteq> Completed \<and> storage_path r = None) (backups w)"

text \<open>
  What the steps of a run before its completion keep: the nodes, the settings, the next
  identifier and the identifiers of the table; the invariant, for a run that is open; and
  what was logged and called before.
\<close>

definition frame :: "nat \<Rightarrow> world \<Rightarrow> world \<Rightarrow> bool" where
  "frame bid w w' =
     (nodes w' = nodes w \<and> settings_tbl w' = settings_tbl w
      \<and> next_backup_id w' = next_backup_id w
      \<and> map backup_id (backups w') = map backup_id (backups w)
      \<and> (hist_ok w \<and> open_run bid w \<longrightarrow> hist_ok w' \<and> open_run bid w')
      \<and> (\<exists>ls. backup_logs w' = backup_logs w @ ls)
      \<and> (\<exists>es. events w' = events w @ es))"

text \<open>What the \<^verbatim>\<open>try\<close> block leaves: a failure, or the completed record.\<close>

definition finished ::
  "env \<Rightarrow> node \<Rightarrow> string \<Rightarrow> string \<Rightarrow> nat \<Rightarrow> world \<Rightarrow> string option \<Rightarrow> world \<Rightarrow> bool" where
  "finished e nd volName fname bid w0 r w' =
     (case r of
        Some err \<Rightarrow> frame bid w0 w'
      | None \<Rightarrow>
          (\<exists>w3 storagePath fileSize.
             frame bid w0 w3 \<and> archive_r e = None \<and> stat_r e = Inr fileSize
             \<and> upload_r e = Inr storagePath \<and> rm_r e = None \<and> unlink_r e = None
             \<and> w' = completeRun e nd volName fname bid storagePath fileSize w3))"

subsection \<open>The record of a run\<close>

text \<open>
  \<open>runId\<close> is the identifier of the record a call of \<^verbatim>\<open>createBackup\<close> works on: the one
  handed in, or the next identifier of the table. \<open>fresh_ids\<close> says that the identifiers in
  use are below the next identifier (\<^verbatim>\<open>AUTOINCREMENT\<close>); \<open>supplied_pending\<close> that a record
  handed in is \<^verbatim>\<open>pending\<close>, as the submission endpoint creates it; \<open>run_exists\<close> that a
  record handed in is in the table. \<open>started\<close> is the state at the start of the \<^verbatim>\<open>try\<close>
  block.
\<close>

definition fresh_ids :: "world \<Rightarrow> bool" where
  "fresh_ids w = list_all (\<lambda>b. backup_id b < next_backup_id w) (backups w)"

definition runId :: "BackupOptions \<Rightarrow> world \<Rightarrow> nat" where
  "runId opts w =
     (case backupId opts of
        None \<Rightarrow> next_backup_id w
      | Some b \<Rightarrow> if b = 0 then next_backup_id w else b)"

definition supplied_pending :: "BackupOptions \<Rightarrow> world \<Rightarrow> bool" where
  "supplied_pending opts w =
     (case backupId opts of
        None \<Rightarrow> True
      | Some b \<Rightarrow> b = 0 \<or> list_all (\<lambda>r. backup_id r = b \<longrightarrow> status r = Pending) (backups w))"

definition run_exists :: "BackupOptions \<Rightarrow> world \<Rightarrow> bool" where
  "run_exists opts w =
     (case backupId opts of
        None \<Rightarrow> True
      | Some b \<Rightarrow> b = 0 \<or> backupRepo_getById b w \<noteq> None)"

definition started :: "env \<Rightarrow> BackupOptions \<Rightarrow> node \<Rightarrow> world \<Rightarrow> world" where
  "started e opts nd w =
     sendWebhook WInfo ''Backup Started'' (''**'' @ name nd @ ''** - '' @ selectorOf opts)
       [(''Storage Type'', StorageVal (storageType opts))]
       (backupRepo_updateProgress (runId opts w) 5
          (backupLog (runId opts w) Info
             (StartingBackup (artifactName e nd (selectorOf opts)))
             (snd (enterRunning e opts (selectorOf opts) (artifactName e nd (selectorOf opts)) w))))"

text \<open>
  The volumes of a run, given the listing; the outcome of the steps after the loop (the
  first error among archiving, reading the size, uploading and the two removals); and
  that, of the given volumes, each whose download failed has its warning in the log of
  the run.
\<close>

definition volumesOf :: "string \<Rightarrow> (char \<times> string) list \<Rightarrow> string list" where
  "volumesOf volName entries =
     (if volName = ''all-volumes'' then volumeDirs entries else [volName])"

definition afterLoop :: "env \<Rightarrow> string option" where
  "afterLoop e =
     (case archive_r e of
        Some err \<Rightarrow> Some err
      | None \<Rightarrow>
          (case stat_r e of
             Inl err \<Rightarrow> Some err
           | Inr sz \<Rightarrow>
               (case upload_r e of
                  Inl err \<Rightarrow> Some err
                | Inr sp \<Rightarrow> (case rm_r e of Some err \<Rightarrow> Some err | None \<Rightarrow> unlink_r e))))"

definition warned :: "nat \<Rightarrow> env \<Rightarrow> world \<Rightarrow> string list \<Rightarrow> bool" where
  "warned bid e w vols =
     list_all (\<lambda>v. case downloadDir_r e v of
                     None \<Rightarrow> True
                   | Some err \<Rightarrow> (bid, Warn, FailedToDownload v err) \<in> set (backup_logs w)) vols"

subsection \<open>The calls of a run\<close>

text \<open>
  \<open>ptero_vols\<close> lists the volumes for which a sequence of calls queries or sets the state
  of a server, \<open>downloads\<close> the volumes it downloads. \<open>stop_followed\<close> says that every stop
  signal in the sequence has, later in the sequence, the download of its volume and, after
  that download, a start signal for the volume.
\<close>

fun ptero_target :: "event \<Rightarrow> string option" where
  "ptero_target (EvGetServerState v) = Some v"
| "ptero_target (EvSetServerState v s) = Some v"
| "ptero_target ev = None"

fun download_target :: "event \<Rightarrow> string option" where
  "download_target (EvDownloadDir p v) = Some v"
| "download_target ev = None"

definition ptero_vols :: "event list \<Rightarrow> string list" where
  "ptero_vols es = List.map_filter ptero_target es"

definition downloads :: "event list \<Rightarrow> string list" where
  "downloads es = List.map_filter download_target es"

definition start_after_download :: "string \<Rightarrow> event list \<Rightarrow> bool" where
  "start_after_download v es =
     (EvSetServerState v Start \<in> set (dropWhile (\<lambda>ev. download_target ev \<noteq> Some v) es))"

fun stop_followed :: "event list \<Rightarrow> bool" where
  "stop_followed [] = True"
| "stop_followed (EvSetServerState v Stop # es) = (start_after_download v es \<and> stop_followed es)"
| "stop_followed (ev # es) = stop_followed es"

definition trace_ok :: "event list \<Rightarrow> bool" where
  "trace_ok es = (list_all isUuid (ptero_vols es) \<and> stop_followed es)"

definition ev_rel :: "string list \<Rightarrow> world \<Rightarrow> world \<Rightarrow> bool" where
  "ev_rel vs w w' = (\<exists>es. events w' = events w @ es \<and> trace_ok es \<and> downloads es = vs)"

text \<open>The calls of the safe stop and of one iteration of the download loop.\<close>

definition stopEvents :: "string \<Rightarrow> bool \<Rightarrow> nat \<Rightarrow> event list" where
  "stopEvents vol wasRunning m =
     (if wasRunning
      then EvGetServerState vol # EvSetServerState vol Stop # replicate m (EvGetServerState vol)
      else [EvGetServerState vol])"

definition volumeEvents :: "nat \<Rightarrow> string \<Rightarrow> string \<Rightarrow> bool \<Rightarrow> nat \<Rightarrow> event list" where
  "volumeEvents bid vpath vol wasRunning m =
     EvMkdir (VolDir bid vol)
       # (if isUuid vol then stopEvents vol wasRunning m else [])
       @ EvDownloadDir vpath vol
       # (if wasRunning then [EvSetServerState vol Start] else [])"

subsection \<open>Retention\<close>

text \<open>
  \<open>doomed\<close> is the list retention deletes from; \<open>completedRuns\<close> the completed runs of a
  node and storage kind; \<open>pruned\<close> the records of the table that are gone after retention,
  \<open>retained\<close> the completed runs of the node and storage kind that are still there.
\<close>

definition doomed :: "nat \<Rightarrow> StorageType \<Rightarrow> int \<Rightarrow> world \<Rightarrow> backup list" where
  "doomed nid stype keep w =
     (if int (length (retentionCandidates nid stype w)) > keep
      then slice_from keep (retentionCandidates nid stype w) else [])"

definition completedRuns :: "nat \<Rightarrow> StorageType \<Rightarrow> world \<Rightarrow> backup list" where
  "completedRuns nid stype w =
     filter (\<lambda>b. node_id b = nid \<and> storage_type b = stype \<and> status b = Completed) (backups w)"

definition pruned :: "nat \<Rightarrow> StorageType \<Rightarrow> int \<Rightarrow> world \<Rightarrow> backup list" where
  "pruned nid stype keep w =
     filter (\<lambda>b. b \<notin> set (backups (applyRetention nid stype keep w))) (backups w)"

definition retained :: "nat \<Rightarrow> StorageType \<Rightarrow> int \<Rightarrow> world \<Rightarrow> backup list" where
  "retained nid stype keep w =
     filter (\<lambda>b. b \<in> set (backups (applyRetention nid stype keep w))) (completedRuns nid stype w)"


section \<open>Concrete inputs\<close>

text \<open>
  A local disk and settings for the storage backends; a node with two volumes, one of
  them named like a server identifier; an outside in which every call succeeds and the
  server is found running and goes offline at the second query after the stop; and tables
  for the pipeline and for retention.
\<close>

definition disk0 :: "path \<Rightarrow> fsnode option" where
  "disk0 =
     [[''srv'', ''data''] \<mapsto> Dir 4096,
      [''srv'', ''data'', ''backups''] \<mapsto> Dir 4096,
      [''srv'', ''data'', ''backups'', ''alpha.tar.gz''] \<mapsto> File 10]"

definition local0 :: local_state where
  "local0 = \<lparr>basePath = [''srv'', ''data'', ''backups''], fs = disk0, logged = []\<rparr>"

definition sftpSettings0 :: settings where
  "sftpSettings0 = [''sftp_host'' \<mapsto> ''backup.example'', ''sftp_user'' \<mapsto> ''bk'']"

definition s3Settings0 :: settings where
  "s3Settings0 = [''s3_bucket'' \<mapsto> ''bk'', ''s3_access_key'' \<mapsto> ''AK'']"

definition node0 :: node where
  "node0 = \<lparr>name = ''alpha'', host = ''10.0.0.5'', volumes_path = None\<rparr>"

definition uuid0 :: string where
  "uuid0 = ''0a1b2c3d-0000-4000-8000-00000000000F''"

definition listing0 :: "(char \<times> string) list" where
  "listing0 =
     [(CHR ''d'', ''v1''), (CHR ''d'', uuid0), (CHR ''-'', ''notes.txt''), (CHR ''d'', ''.cache'')]"

definition world0 :: world where
  "world0 =
     \<lparr>nodes = [1 \<mapsto> node0], settings_tbl = [''discord_webhook_url'' \<mapsto> ''https://hook''],
      backups = [], next_backup_id = 1, backup_logs = [], console = [], webhooks = [],
      events = [], session_open = False, artifacts = [], history = []\<rparr>"

definition env0 :: env where
  "env0 =
     \<lparr>volumesPath = ''/var/lib/pterodactyl/volumes'',
      ts_filename = ''2024-01-01T00:00:00.000Z'', ts_started = ''2024-01-01T00:00:00.001Z'',
      ts_completed = ''2024-01-01T00:01:10.000Z'', created_now = 1000, duration_ms = 70000,
      connect_r = None, list_r = Inr listing0, mkdir_r = (\<lambda>p. None),
      getServerState_r = (\<lambda>v k. Inr (Some (if k < 2 then ''running'' else ''offline''))),
      setServerState_r = (\<lambda>v s. Inr True),
      downloadDir_r = (\<lambda>v. None),
      archive_r = None, stat_r = Inr 2048, upload_r = Inr ''/srv/data/backups/alpha.tar.gz'',
      rm_r = None, unlink_r = None, backend_delete_r = (\<lambda>t f. None)\<rparr>"

definition opts0 :: BackupOptions where
  "opts0 = \<lparr>nodeId = 1, volumeName = None, storageType = Local, backupId = None\<rparr>"

definition row0 :: backup where
  "row0 =
     \<lparr>backup_id = 1, node_id = 1, volume_name = ''all-volumes'', filename = ''alpha-1.tar.gz'',
      size_bytes = 10, storage_type = Local,
      storage_path = Some ''/srv/data/backups/alpha-1.tar.gz'', status = Completed,
      progress = 100, error_message = None, started_at = Some ''2024-01-01T00:00:00.000Z'',
      completed_at = Some ''2024-01-01T00:01:00.000Z'', created_at = 100\<rparr>"

text \<open>A table with a completed record and a record as the submission endpoint creates it.\<close>

definition world1 :: world where
  "world1 =
     world0\<lparr>backups :=
              [row0,
               row0\<lparr>backup_id := 2, filename := ''pending'', size_bytes := 0,
                     storage_path := None, status := Pending, progress := 0,
                     completed_at := None, created_at := 200\<rparr>],
            next_backup_id := 3\<rparr>"

definition opts1 :: BackupOptions where
  "opts1 = \<lparr>nodeId = 1, volumeName = None, storageType = Local, backupId = Some 2\<rparr>"

text \<open>
  A table with two completed local runs of node 1, whose artifacts are in local storage,
  and a newer run that is still running.
\<close>

definition worldR :: world where
  "worldR =
     world0\<lparr>backups :=
              [row0,
               row0\<lparr>backup_id := 2, filename := ''alpha-2.tar.gz'',
                     storage_path := Some ''/srv/data/backups/alpha-2.tar.gz'', created_at := 200\<rparr>,
               row0\<lparr>backup_id := 3, filename := ''alpha-3.tar.gz'', size_bytes := 0,
                     storage_path := None, status := Running, progress := 45,
                     completed_at := None, created_at := 300\<rparr>],
            next_backup_id := 4,
            artifacts := [(Local, ''alpha-1.tar.gz''), (Local, ''alpha-2.tar.gz'')]\<rparr>"


section \<open>Properties of the storage backends\<close>

lemma basename_no_slash: "CHR ''/'' \<notin> set (basename p)"
  unfolding basename_def by (auto dest: set_takeWhileD)

lemma segments_no_slash: "CHR ''/'' \<notin> set p \<Longrightarrow> segments p = [p]"
  unfolding segments_def by (induction p) auto

lemma resolve_basename: "resolve base (basename p) = normSeg base (basename p)"
  using basename_no_slash[of p] segments_no_slash[of "basename p"]
  unfolding resolve_def by (cases "basename p") auto

lemma resolve_basename_inside:
  "basename p \<noteq> ''..'' \<Longrightarrow> prefix base (resolve base (basename p))"
  by (simp add: resolve_basename normSeg_def)

lemma basename_dotdot: "basename ''..'' = ''..''"
  by (simp add: basename_def)

lemma sanitize_dotdot: "sanitizeFilename ''..'' s = (''..'', s)"
  by (simp add: sanitizeFilename_def basename_dotdot)

lemma resolve_dotdot: "resolve base ''..'' = butlast base"
  by (simp add: resolve_def segments_def normSeg_def)

text \<open>
  C9. The five operations of the local backend build their path from the base name of
  the file name they are given, and a name that differs from its base name is logged.
  The base name of \<^verbatim>\<open>..\<close> is \<^verbatim>\<open>..\<close> itself: asked for \<^verbatim>\<open>..\<close> under the base directory
  \<^verbatim>\<open>/srv/data/backups\<close>, the backend logs nothing, resolves the name to \<^verbatim>\<open>/srv/data\<close>,
  which is not under the base directory, reports that it exists and answers with the
  size of that directory.
\<close>

theorem C9_dotdot_escapes_base:
  "sanitizeFilename ''..'' local0 = (''..'', local0)
   \<and> resolve (basePath local0) (fst (sanitizeFilename ''..'' local0)) = [''srv'', ''data'']
   \<and> prefix (basePath local0) (resolve (basePath local0) (fst (sanitizeFilename ''..'' local0)))
       = False
   \<and> LocalStorage_getSize ''..'' local0 = (4096, local0)
   \<and> LocalStorage_exists ''..'' local0 = (True, local0)"
  by (simp add: sanitize_dotdot resolve_dotdot LocalStorage_getSize_def
      LocalStorage_exists_def local0_def disk0_def)

text \<open>
  C10, as the claim states it, fails for the remote filesystem backend: with no host and
  no user configured, \<open>getSize\<close> raises the configuration error instead of returning 0.
\<close>

theorem C10_sftp_unconfigured_raises:
  "SftpStorage_getSize (\<lambda>k. None) (\<lambda>h p u pw. None) (\<lambda>p. Inr 5) ''alpha.tar.gz''
     = Inl ''SFTP Configuration missing in database''
   \<and> SftpStorage_getSize (\<lambda>k. None) (\<lambda>h p u pw. None) (\<lambda>p. Inr 5) ''alpha.tar.gz'' \<noteq> Inr 0"
  by (simp add: SftpStorage_getSize_def Sftp_getClient_def truthy_def)

text \<open>
  C10, amended. The local backend returns 0 for a name whose resolved path does not
  exist. The object storage backend returns 0 when the bucket or the access key is not
  configured, and when the head request fails. The remote filesystem backend returns 0
  when the stat request fails on an established connection; when the host or the user is
  not configured, or the connection fails, it raises that error.
\<close>

theorem C10_getSize_amended:
  "(fs s (resolve (basePath s) (basename fname)) = None
      \<longrightarrow> fst (LocalStorage_getSize fname s) = 0)
   \<and> (\<not> (truthy (st ''s3_bucket'') \<and> truthy (st ''s3_access_key''))
      \<longrightarrow> S3Storage_getSize st head fname = 0)
   \<and> (S3_getClient st = Inr client \<and> head client (st ''s3_bucket'') fname = Inl ea
      \<longrightarrow> S3Storage_getSize st head fname = 0)
   \<and> (Sftp_getClient st' connect = Inr () \<and> stat (Sftp_getPath st' @ ''/'' @ fname) = Inl eb
      \<longrightarrow> SftpStorage_getSize st' connect stat fname = Inr 0)
   \<and> (\<not> (truthy (st' ''sftp_host'') \<and> truthy (st' ''sftp_user''))
      \<longrightarrow> SftpStorage_getSize st' connect stat fname
            = Inl ''SFTP Configuration missing in database'')
   \<and> (Sftp_getClient st' connect = Inl ec
      \<longrightarrow> SftpStorage_getSize st' connect stat fname = Inl ec)"
proof -
  have l: "fs s (resolve (basePath s) (basename fname)) = None
      \<longrightarrow> fst (LocalStorage_getSize fname s) = 0"
    by (simp add: LocalStorage_getSize_def sanitizeFilename_def Let_def)
  have c1: "\<not> (truthy (st ''s3_bucket'') \<and> truthy (st ''s3_access_key''))
      \<longrightarrow> S3Storage_getSize st head fname = 0"
    by (auto simp: S3Storage_getSize_def S3_getClient_def S3_getConfig_def Let_def)
  have c2: "S3_getClient st = Inr client \<and> head client (st ''s3_bucket'') fname = Inl ea
      \<longrightarrow> S3Storage_getSize st head fname = 0"
    by (simp add: S3Storage_getSize_def S3_getConfig_def Let_def)
  have r1: "Sftp_getClient st' connect = Inr () \<and> stat (Sftp_getPath st' @ ''/'' @ fname) = Inl eb
      \<longrightarrow> SftpStorage_getSize st' connect stat fname = Inr 0"
    by (simp add: SftpStorage_getSize_def)
  have r2: "\<not> (truthy (st' ''sftp_host'') \<and> truthy (st' ''sftp_user''))
      \<longrightarrow> SftpStorage_getSize st' connect stat fname
            = Inl ''SFTP Configuration missing in database''"
    by (auto simp: SftpStorage_getSize_def Sftp_getClient_def)
  have r3: "Sftp_getClient st' connect = Inl ec
      \<longrightarrow> SftpStorage_getSize st' connect stat fname = Inl ec"
    by (simp add: SftpStorage_getSize_def)
  from l c1 c2 r1 r2 r3 show ?thesis by blast
qed

text \<open>
  C10, amended, at concrete inputs: a name that is not on the local disk, an object store
  without settings, a remote filesystem that is configured and connects but whose stat
  request fails, and one whose connection fails.
\<close>

theorem C10_getSize_amended_witness:
  "fst (LocalStorage_getSize ''beta.tar.gz'' local0) = 0
   \<and> S3Storage_getSize (\<lambda>k. None) (\<lambda>c b k. Inr (Some 7)) ''beta.tar.gz'' = 0
   \<and> S3Storage_getSize s3Settings0 (\<lambda>c b k. Inl ''NotFound'') ''beta.tar.gz'' = 0
   \<and> SftpStorage_getSize sftpSettings0 (\<lambda>h p u pw. None) (\<lambda>p. Inl ''No such file'')
        ''beta.tar.gz'' = Inr 0
   \<and> SftpStorage_getSize sftpSettings0 (\<lambda>h p u pw. Some ''ECONNREFUSED'') (\<lambda>p. Inr 5)
        ''beta.tar.gz'' = Inl ''ECONNREFUSED''"
proof -
  have bn: "basename ''beta.tar.gz'' = ''beta.tar.gz''"
    by (simp add: basename_def)
  have rs: "resolve (basePath local0) (basename ''beta.tar.gz'')
              = [''srv'', ''data'', ''backups'', ''beta.tar.gz'']"
    unfolding resolve_basename by (simp add: bn normSeg_def local0_def)
  have a: "fs local0 (resolve (basePath local0) (basename ''beta.tar.gz'')) = None"
    unfolding rs by (simp add: local0_def disk0_def)
  have b: "\<not> (truthy ((\<lambda>k. None) ''s3_bucket'') \<and> truthy ((\<lambda>k. None) ''s3_access_key''))"
    by (simp add: truthy_def)
  have c: "S3_getClient s3Settings0
             = Inr \<lparr>clientEndpoint = None, clientRegion = ''us-east-1'', accessKeyId = ''AK'',
                    secretAccessKey = None\<rparr>"
    by (simp add: S3_getClient_def S3_getConfig_def s3Settings0_def truthy_def)
  have d: "Sftp_getClient sftpSettings0 (\<lambda>h p u pw. None) = Inr ()"
    by (simp add: Sftp_getClient_def sftpSettings0_def truthy_def)
  have f: "Sftp_getClient sftpSettings0 (\<lambda>h p u pw. Some ''ECONNREFUSED'') = Inl ''ECONNREFUSED''"
    by (simp add: Sftp_getClient_def sftpSettings0_def truthy_def)
  show ?thesis
    using a b c d f
      C10_getSize_amended[where s = local0 and fname = "''beta.tar.gz''" and st = "\<lambda>k. None"
        and head = "\<lambda>c b k. Inr (Some 7)" and st' = sftpSettings0
        and connect = "\<lambda>h p u pw. None" and stat = "\<lambda>p. Inl ''No such file''"
        and eb = "''No such file''"]
      C10_getSize_amended[where s = local0 and fname = "''beta.tar.gz''" and st = s3Settings0
        and head = "\<lambda>c b k. Inl ''NotFound''" and st' = sftpSettings0
        and connect = "\<lambda>h p u pw. Some ''ECONNREFUSED''" and stat = "\<lambda>p. Inr 5"
        and ec = "''ECONNREFUSED''" and ea = "''NotFound''"
        and client = "\<lparr>clientEndpoint = None, clientRegion = ''us-east-1'', accessKeyId = ''AK'',
                    secretAccessKey = None\<rparr>"]
    by simp
qed

section \<open>Lemmas about the pipeline and retention\<close>

lemma frame_refl: "frame bid w w"
  by (simp add: frame_def)

lemma frame_trans: "frame bid w w1 \<Longrightarrow> frame bid w1 w2 \<Longrightarrow> frame bid w w2"
  unfolding frame_def by (elim conjE exE) simp

lemma frame_silent:
  assumes "frame bid w w'"
    and "backups w'' = backups w'" "history w'' = history w'" "nodes w'' = nodes w'"
    and "settings_tbl w'' = settings_tbl w'" "next_backup_id w'' = next_backup_id w'"
    and "\<exists>ls. backup_logs w'' = backup_logs w' @ ls"
    and "\<exists>es. events w'' = events w' @ es"
  shows "frame bid w w''"
proof -
  have "frame bid w' w''"
    using assms(2-) by (simp add: frame_def hist_ok_def open_run_def)
  with assms(1) show ?thesis by (rule frame_trans)
qed

lemma frame_emit: "frame bid w w' \<Longrightarrow> frame bid w (emit ev w')"
  by (erule frame_silent) (simp_all add: emit_def)

lemma frame_logLine: "frame bid w w' \<Longrightarrow> frame bid w (logLine lvl m w')"
  by (erule frame_silent) (simp_all add: logLine_def)

lemma frame_backupLog: "frame bid w w' \<Longrightarrow> frame bid w (backupLog i lvl m w')"
  by (erule frame_silent) (simp_all add: backupLog_def logLine_def)

lemma frame_sendWebhook: "frame bid w w' \<Longrightarrow> frame bid w (sendWebhook ty t d f w')"
  by (erule frame_silent) (simp_all add: sendWebhook_def)

lemma frame_session: "frame bid w w' \<Longrightarrow> frame bid w (w'\<lparr>session_open := b\<rparr>)"
  by (erule frame_silent) simp_all

lemma frame_artifacts: "frame bid w w' \<Longrightarrow> frame bid w (w'\<lparr>artifacts := a\<rparr>)"
  by (erule frame_silent) simp_all

lemma update_keeps_ids:
  "(\<And>b. backup_id (upd b) = backup_id b) \<Longrightarrow>
   map backup_id (map (\<lambda>b. if backup_id b = i then upd b else b) t) = map backup_id t"
  by (induction t) auto

lemma update_fields:
  "nodes (backupRepo_update i upd w) = nodes w"
  "settings_tbl (backupRepo_update i upd w) = settings_tbl w"
  "next_backup_id (backupRepo_update i upd w) = next_backup_id w"
  "backup_logs (backupRepo_update i upd w) = backup_logs w"
  "events (backupRepo_update i upd w) = events w"
  "session_open (backupRepo_update i upd w) = session_open w"
  "webhooks (backupRepo_update i upd w) = webhooks w"
  "artifacts (backupRepo_update i upd w) = artifacts w"
  "backups (backupRepo_update i upd w) = map (\<lambda>b. if backup_id b = i then upd b else b) (backups w)"
  "history (backupRepo_update i upd w)
     = history w @ [map (\<lambda>b. if backup_id b = i then upd b else b) (backups w)]"
  by (simp_all add: backupRepo_update_def commit_def)

lemma frame_update:
  assumes "frame bid w w'"
    and "\<And>b. backup_id (upd b) = backup_id b"
    and "\<And>b. backup_id b = bid \<Longrightarrow> status b \<noteq> Completed \<Longrightarrow> storage_path b = None \<Longrightarrow>
           run_inv b \<Longrightarrow>
           run_inv (upd b) \<and> status (upd b) \<noteq> Completed \<and> storage_path (upd b) = None"
  shows "frame bid w (backupRepo_update bid upd w')"
proof -
  let ?t = "map (\<lambda>b. if backup_id b = bid then upd b else b) (backups w')"
  have ids: "map backup_id ?t = map backup_id (backups w')"
    using assms(2) by (rule update_keeps_ids)
  have inv: "hist_ok w' \<and> open_run bid w' \<longrightarrow>
             hist_ok (backupRepo_update bid upd w') \<and> open_run bid (backupRepo_update bid upd w')"
  proof
    assume h: "hist_ok w' \<and> open_run bid w'"
    have t: "table_inv ?t"
      unfolding table_inv_def list_all_iff
    proof
      fix r assume "r \<in> set ?t"
      then obtain b where b: "b \<in> set (backups w')"
        and r: "r = (if backup_id b = bid then upd b else b)" by auto
      from h b have bi: "run_inv b"
        and bo: "backup_id b = bid \<longrightarrow> status b \<noteq> Completed \<and> storage_path b = None"
        unfolding hist_ok_def open_run_def table_inv_def list_all_iff by blast+
      show "run_inv r"
      proof (cases "backup_id b = bid")
        case True
        with assms(3)[of b] bi bo r show ?thesis by simp
      next
        case False
        with bi r show ?thesis by simp
      qed
    qed
    have o: "list_all (\<lambda>r. backup_id r = bid \<longrightarrow> status r \<noteq> Completed \<and> storage_path r = None) ?t"
      unfolding list_all_iff
    proof
      fix r assume "r \<in> set ?t"
      then obtain b where b: "b \<in> set (backups w')"
        and r: "r = (if backup_id b = bid then upd b else b)" by auto
      from h b have bi: "run_inv b"
        and bo: "backup_id b = bid \<longrightarrow> status b \<noteq> Completed \<and> storage_path b = None"
        unfolding hist_ok_def open_run_def table_inv_def list_all_iff by blast+
      show "backup_id r = bid \<longrightarrow> status r \<noteq> Completed \<and> storage_path r = None"
      proof (cases "backup_id b = bid")
        case True
        with assms(3)[of b] bi bo r show ?thesis by simp
      next
        case False
        with r show ?thesis by simp
      qed
    qed
    show "hist_ok (backupRepo_update bid upd w') \<and> open_run bid (backupRepo_update bid upd w')"
      using t o h by (simp add: hist_ok_def open_run_def update_fields)
  qed
  have "frame bid w' (backupRepo_update bid upd w')"
    unfolding frame_def using ids inv by (simp add: update_fields)
  with assms(1) show ?thesis by (rule frame_trans)
qed

lemma frame_updateProgress:
  "p \<noteq> 100 \<Longrightarrow> frame bid w w' \<Longrightarrow> frame bid w (backupRepo_updateProgress bid p w')"
  unfolding backupRepo_updateProgress_def
  by (rule frame_update) (auto simp: run_inv_def)

lemma frame_fail: "frame bid w w' \<Longrightarrow> frame bid w (backupRepo_fail bid msg w')"
  unfolding backupRepo_fail_def
  by (rule frame_update) (auto simp: run_inv_def)

lemmas frame_intros = frame_emit frame_logLine frame_backupLog frame_sendWebhook frame_session
  frame_artifacts frame_fail

lemma frame_waitOffline: "frame bid w w' \<Longrightarrow> frame bid w (waitOffline e vol n k w')"
proof (induction n arbitrary: k w')
  case 0
  then show ?case by simp
next
  case (Suc n)
  have f1: "frame bid w (emit (EvGetServerState vol) w')"
    using Suc.prems by (rule frame_emit)
  show ?case
  proof (cases "getServerState_r e vol k")
    case (Inl err)
    with f1 show ?thesis by (simp add: Let_def)
  next
    case (Inr st)
    with f1 Suc.IH[OF f1] show ?thesis by (simp add: Let_def)
  qed
qed

lemma frame_safeStop: "frame bid w w' \<Longrightarrow> frame bid w (snd (safeStop e bid vol w'))"
  unfolding safeStop_def Let_def
  by (simp split: sum.splits add: frame_intros frame_waitOffline)

lemma frame_safeStart: "frame bid w w' \<Longrightarrow> frame bid w (safeStart e bid vol w')"
  unfolding safeStart_def Let_def
  by (simp split: sum.splits add: frame_intros)

lemma volumeProgress_le: "i < n \<Longrightarrow> volumeProgress i n \<le> 75"
proof -
  assume l: "i < n"
  then have "(i + 1) * 60 \<le> 60 * n" by simp
  then have "((i + 1) * 60) div n \<le> (60 * n) div n" by (rule div_le_mono)
  also have "(60 * n) div n = 60" using l by simp
  finally show ?thesis by (simp add: volumeProgress_def)
qed

lemma frame_stopPhase: "frame bid w w' \<Longrightarrow> frame bid w (snd (stopPhase e bid vol w'))"
  by (simp add: stopPhase_def frame_safeStop)

lemma frame_downloadPhase:
  "frame bid w w' \<Longrightarrow> frame bid w (downloadPhase e bid vpath n i vol w')"
  unfolding downloadPhase_def Let_def
  by (simp split: option.splits add: frame_intros)

lemma frame_startPhase: "frame bid w w' \<Longrightarrow> frame bid w (startPhase e bid vol wr w')"
  by (simp add: startPhase_def frame_safeStart)

lemma frame_processVolume:
  assumes "i < n" "frame bid w w'"
  shows "frame bid w (snd (processVolume e bid vpath n i vol w'))"
proof -
  have p: "volumeProgress i n \<noteq> 100"
    using volumeProgress_le[OF assms(1)] by simp
  have f1: "frame bid w (emit (EvMkdir (VolDir bid vol)) w')"
    using assms(2) by (rule frame_emit)
  show ?thesis
  proof (cases "mkdir_r e (VolDir bid vol)")
    case (Some err)
    with f1 show ?thesis by (simp add: processVolume_def Let_def)
  next
    case None
    obtain wr w2 where s: "stopPhase e bid vol (emit (EvMkdir (VolDir bid vol)) w') = (wr, w2)"
      by (cases "stopPhase e bid vol (emit (EvMkdir (VolDir bid vol)) w')") auto
    have f2: "frame bid w w2"
      using frame_stopPhase[OF f1, of e vol] s by simp
    have "frame bid w (backupRepo_updateProgress bid (volumeProgress i n)
            (startPhase e bid vol wr (downloadPhase e bid vpath n i vol w2)))"
      by (intro frame_updateProgress p frame_startPhase frame_downloadPhase f2)
    with None s show ?thesis by (simp add: processVolume_def Let_def)
  qed
qed

lemma frame_downloadVolumes:
  "i + length vols \<le> n \<Longrightarrow> frame bid w w' \<Longrightarrow>
   frame bid w (snd (downloadVolumes e bid vpath n i vols w'))"
proof (induction vols arbitrary: i w')
  case Nil
  then show ?case by simp
next
  case (Cons vol vols)
  have "i < n" using Cons.prems(1) by simp
  then have f: "frame bid w (snd (processVolume e bid vpath n i vol w'))"
    using Cons.prems(2) by (rule frame_processVolume)
  show ?case
  proof (cases "processVolume e bid vpath n i vol w'")
    case (Pair r w1)
    with f have f1: "frame bid w w1" by simp
    show ?thesis
    proof (cases r)
      case None
      have "frame bid w (snd (downloadVolumes e bid vpath n (Suc i) vols w1))"
        using Cons.prems(1) f1 by (intro Cons.IH) auto
      with Pair None show ?thesis by simp
    next
      case (Some err)
      with Pair f1 show ?thesis by simp
    qed
  qed
qed

lemma frame_connectAndList:
  "frame bid w w' \<Longrightarrow> frame bid w (snd (connectAndList e nd vpath bid volName w'))"
  unfolding connectAndList_def Let_def
  by (simp split: option.splits sum.splits add: frame_intros frame_updateProgress)

lemma frame_closeSession: "frame bid w w' \<Longrightarrow> frame bid w (closeSession bid w')"
  unfolding closeSession_def
  by (intro frame_updateProgress frame_backupLog frame_session frame_emit) simp_all

lemma frame_archiveStep: "frame bid w w' \<Longrightarrow> frame bid w (snd (archiveStep e bid w'))"
  unfolding archiveStep_def Let_def
  by (simp split: option.splits sum.splits add: frame_intros frame_updateProgress)

lemma frame_uploadStep: "frame bid w w' \<Longrightarrow> frame bid w (snd (uploadStep e opts fname bid w'))"
  unfolding uploadStep_def Let_def
  by (simp split: option.splits sum.splits add: frame_intros frame_updateProgress)

lemma frame_cleanup: "frame bid w w' \<Longrightarrow> frame bid w (snd (cleanup e bid fname w'))"
  unfolding cleanup_def Let_def
  by (simp split: option.splits add: frame_intros)

lemma frame_catchBlock: "frame bid w w' \<Longrightarrow> frame bid w (catchBlock nd volName bid msg w')"
  unfolding catchBlock_def
  by (intro frame_sendWebhook frame_backupLog frame_fail)

lemma archiveStep_Inr:
  "archiveStep e bid w = (Inr fileSize, w') \<Longrightarrow> archive_r e = None \<and> stat_r e = Inr fileSize"
  unfolding archiveStep_def Let_def by (auto split: option.splits sum.splits)

lemma uploadStep_Inr:
  "uploadStep e opts fname bid w = (Inr storagePath, w') \<Longrightarrow> upload_r e = Inr storagePath"
  unfolding uploadStep_def Let_def by (auto split: sum.splits)

lemma cleanup_None:
  "cleanup e bid fname w = (None, w') \<Longrightarrow> rm_r e = None \<and> unlink_r e = None"
  unfolding cleanup_def Let_def by (auto split: option.splits)

lemma archiveAndUpload_finished:
  assumes "frame bid w0 w"
  shows "finished e nd volName fname bid w0
           (fst (archiveAndUpload e nd opts volName fname bid w))
           (snd (archiveAndUpload e nd opts volName fname bid w))"
proof -
  obtain r1 w1 where a: "archiveStep e bid (closeSession bid w) = (r1, w1)"
    by (cases "archiveStep e bid (closeSession bid w)") auto
  have f1: "frame bid w0 w1"
    using frame_archiveStep[OF frame_closeSession[OF assms], of e] a by simp
  show ?thesis
  proof (cases r1)
    case (Inl err)
    with a f1 show ?thesis by (simp add: archiveAndUpload_def finished_def)
  next
    case (Inr fileSize)
    obtain r2 w2 where u: "uploadStep e opts fname bid w1 = (r2, w2)"
      by (cases "uploadStep e opts fname bid w1") auto
    have f2: "frame bid w0 w2"
      using frame_uploadStep[OF f1, of e opts fname] u by simp
    show ?thesis
    proof (cases r2)
      case (Inl err)
      with a u Inr f2 show ?thesis by (simp add: archiveAndUpload_def finished_def)
    next
      case r2: (Inr storagePath)
      obtain r3 w3 where c: "cleanup e bid fname w2 = (r3, w3)"
        by (cases "cleanup e bid fname w2") auto
      have f3: "frame bid w0 w3"
        using frame_cleanup[OF f2, of e fname] c by simp
      show ?thesis
      proof (cases r3)
        case (Some err)
        with a u c Inr r2 f3 show ?thesis by (simp add: archiveAndUpload_def finished_def)
      next
        case None
        have "archive_r e = None \<and> stat_r e = Inr fileSize"
          using a Inr by (auto dest: archiveStep_Inr)
        moreover have "upload_r e = Inr storagePath"
          using u r2 by (auto dest: uploadStep_Inr)
        moreover have "rm_r e = None \<and> unlink_r e = None"
          using c None by (auto dest: cleanup_None)
        ultimately show ?thesis
          using a u c Inr r2 None f3
          by (auto simp: archiveAndUpload_def finished_def)
      qed
    qed
  qed
qed

lemma tryBlock_finished:
  assumes "frame bid w0 w"
  shows "finished e nd volName fname bid w0
           (fst (tryBlock e nd opts volName fname bid w))
           (snd (tryBlock e nd opts volName fname bid w))"
proof -
  define vpath where "vpath = (if truthy (volumes_path nd) then the (volumes_path nd) else volumesPath e)"
  obtain r1 w1 where c: "connectAndList e nd vpath bid volName w = (r1, w1)"
    by (cases "connectAndList e nd vpath bid volName w") auto
  have f1: "frame bid w0 w1"
    using frame_connectAndList[OF assms, of e nd vpath volName] c by simp
  show ?thesis
  proof (cases r1)
    case (Inl err)
    with c f1 show ?thesis by (simp add: tryBlock_def finished_def vpath_def)
  next
    case (Inr volumes)
    have f2: "frame bid w0 (emit (EvMkdir (TempDir bid)) w1)"
      using f1 by (rule frame_emit)
    show ?thesis
    proof (cases "mkdir_r e (TempDir bid)")
      case (Some err)
      with c Inr f2 show ?thesis by (simp add: tryBlock_def finished_def vpath_def Let_def)
    next
      case None
      obtain r3 w3 where d: "downloadVolumes e bid vpath (length volumes) 0 volumes
                               (emit (EvMkdir (TempDir bid)) w1) = (r3, w3)"
        by (cases "downloadVolumes e bid vpath (length volumes) 0 volumes
                               (emit (EvMkdir (TempDir bid)) w1)") auto
      have f3: "frame bid w0 w3"
        using frame_downloadVolumes[OF _ f2, of 0 volumes "length volumes" e vpath] d by simp
      show ?thesis
      proof (cases r3)
        case (Some err)
        with c Inr None d f3 show ?thesis
          by (simp add: tryBlock_def finished_def vpath_def Let_def)
      next
        case n3: None
        have "tryBlock e nd opts volName fname bid w = archiveAndUpload e nd opts volName fname bid w3"
          using c Inr None d n3 by (simp add: tryBlock_def vpath_def Let_def)
        then show ?thesis using archiveAndUpload_finished[OF f3] by simp
      qed
    qed
  qed
qed

lemma emit_fields:
  "nodes (emit ev w) = nodes w" "settings_tbl (emit ev w) = settings_tbl w"
  "backups (emit ev w) = backups w" "next_backup_id (emit ev w) = next_backup_id w"
  "backup_logs (emit ev w) = backup_logs w" "events (emit ev w) = events w @ [ev]"
  "session_open (emit ev w) = session_open w" "artifacts (emit ev w) = artifacts w"
  "history (emit ev w) = history w" "webhooks (emit ev w) = webhooks w"
  by (simp_all add: emit_def)

lemma logLine_fields:
  "nodes (logLine lvl m w) = nodes w" "settings_tbl (logLine lvl m w) = settings_tbl w"
  "backups (logLine lvl m w) = backups w" "next_backup_id (logLine lvl m w) = next_backup_id w"
  "backup_logs (logLine lvl m w) = backup_logs w" "events (logLine lvl m w) = events w"
  "session_open (logLine lvl m w) = session_open w" "artifacts (logLine lvl m w) = artifacts w"
  "history (logLine lvl m w) = history w" "webhooks (logLine lvl m w) = webhooks w"
  by (simp_all add: logLine_def)

lemma backupLog_fields:
  "nodes (backupLog i lvl m w) = nodes w" "settings_tbl (backupLog i lvl m w) = settings_tbl w"
  "backups (backupLog i lvl m w) = backups w"
  "next_backup_id (backupLog i lvl m w) = next_backup_id w"
  "backup_logs (backupLog i lvl m w) = backup_logs w @ [(i, lvl, m)]"
  "events (backupLog i lvl m w) = events w"
  "session_open (backupLog i lvl m w) = session_open w"
  "artifacts (backupLog i lvl m w) = artifacts w"
  "history (backupLog i lvl m w) = history w" "webhooks (backupLog i lvl m w) = webhooks w"
  by (simp_all add: backupLog_def logLine_def)

lemma sendWebhook_fields:
  "nodes (sendWebhook ty t d f w) = nodes w"
  "settings_tbl (sendWebhook ty t d f w) = settings_tbl w"
  "backups (sendWebhook ty t d f w) = backups w"
  "next_backup_id (sendWebhook ty t d f w) = next_backup_id w"
  "backup_logs (sendWebhook ty t d f w) = backup_logs w"
  "events (sendWebhook ty t d f w) = events w"
  "session_open (sendWebhook ty t d f w) = session_open w"
  "artifacts (sendWebhook ty t d f w) = artifacts w"
  "history (sendWebhook ty t d f w) = history w"
  "webhooks (sendWebhook ty t d f w)
     = (if truthy (settings_tbl w ''discord_webhook_url'')
        then webhooks w @ [(ty, t, d, f)] else webhooks w)"
  by (simp_all add: sendWebhook_def)

lemma updateProgress_fields:
  "nodes (backupRepo_updateProgress i p w) = nodes w"
  "settings_tbl (backupRepo_updateProgress i p w) = settings_tbl w"
  "next_backup_id (backupRepo_updateProgress i p w) = next_backup_id w"
  "backup_logs (backupRepo_updateProgress i p w) = backup_logs w"
  "events (backupRepo_updateProgress i p w) = events w"
  "session_open (backupRepo_updateProgress i p w) = session_open w"
  "artifacts (backupRepo_updateProgress i p w) = artifacts w"
  "webhooks (backupRepo_updateProgress i p w) = webhooks w"
  by (simp_all add: backupRepo_updateProgress_def update_fields)

lemma fail_fields:
  "nodes (backupRepo_fail i msg w) = nodes w"
  "settings_tbl (backupRepo_fail i msg w) = settings_tbl w"
  "next_backup_id (backupRepo_fail i msg w) = next_backup_id w"
  "backup_logs (backupRepo_fail i msg w) = backup_logs w"
  "events (backupRepo_fail i msg w) = events w"
  "session_open (backupRepo_fail i msg w) = session_open w"
  "artifacts (backupRepo_fail i msg w) = artifacts w"
  "webhooks (backupRepo_fail i msg w) = webhooks w"
  by (simp_all add: backupRepo_fail_def update_fields)

lemmas prim_fields = emit_fields logLine_fields backupLog_fields sendWebhook_fields
  updateProgress_fields fail_fields update_fields

lemma getById_cong: "backups w' = backups w \<Longrightarrow> backupRepo_getById i w' = backupRepo_getById i w"
  by (simp add: backupRepo_getById_def)

lemma getById_None_iff:
  "(backupRepo_getById i w = None) = (i \<notin> set (map backup_id (backups w)))"
  by (auto simp: backupRepo_getById_def find_None_iff)

lemma getById_frame:
  "frame bid w w' \<Longrightarrow> (backupRepo_getById i w' = None) = (backupRepo_getById i w = None)"
  by (simp add: getById_None_iff frame_def)

lemma find_update:
  "(\<And>b. backup_id (upd b) = backup_id b) \<Longrightarrow>
   find (\<lambda>b. backup_id b = i) (map (\<lambda>b. if backup_id b = i then upd b else b) t)
     = map_option upd (find (\<lambda>b. backup_id b = i) t)"
  by (induction t) auto

lemma getById_update:
  "(\<And>b. backup_id (upd b) = backup_id b) \<Longrightarrow>
   backupRepo_getById i (backupRepo_update i upd w) = map_option upd (backupRepo_getById i w)"
  by (simp add: backupRepo_getById_def update_fields find_update)

lemma getById_catchBlock:
  "backupRepo_getById bid (catchBlock nd volName bid msg w)
     = map_option (\<lambda>b. b\<lparr>status := Failed, error_message := Some msg, progress := 0\<rparr>)
         (backupRepo_getById bid w)"
proof -
  have "backups (catchBlock nd volName bid msg w) = backups (backupRepo_fail bid msg w)"
    by (simp add: catchBlock_def prim_fields)
  then have "backupRepo_getById bid (catchBlock nd volName bid msg w)
               = backupRepo_getById bid (backupRepo_fail bid msg w)"
    by (rule getById_cong)
  then show ?thesis
    by (simp add: backupRepo_fail_def getById_update)
qed

lemma getById_completeRun:
  "backupRepo_getById bid (completeRun e nd volName fname bid storagePath fileSize w)
     = map_option (\<lambda>b. b\<lparr>storage_path := Some storagePath, size_bytes := fileSize,
                           status := Completed, progress := 100,
                           completed_at := Some (ts_completed e)\<rparr>)
         (backupRepo_getById bid w)"
proof -
  let ?u = "\<lambda>b. b\<lparr>storage_path := Some storagePath, size_bytes := fileSize,
                    status := Completed, progress := 100,
                    completed_at := Some (ts_completed e)\<rparr>"
  have "backups (completeRun e nd volName fname bid storagePath fileSize w)
          = backups (backupRepo_update bid ?u w)"
    by (simp add: completeRun_def prim_fields)
  then have "backupRepo_getById bid (completeRun e nd volName fname bid storagePath fileSize w)
               = backupRepo_getById bid (backupRepo_update bid ?u w)"
    by (rule getById_cong)
  then show ?thesis
    by (simp add: getById_update)
qed

lemma completeRun_hist_ok:
  assumes "hist_ok w" "open_run bid w"
  shows "hist_ok (completeRun e nd volName fname bid storagePath fileSize w)"
proof -
  let ?u = "\<lambda>b. b\<lparr>storage_path := Some storagePath, size_bytes := fileSize,
                    status := Completed, progress := 100,
                    completed_at := Some (ts_completed e)\<rparr>"
  let ?t = "map (\<lambda>b. if backup_id b = bid then ?u b else b) (backups w)"
  have t: "table_inv ?t"
    unfolding table_inv_def list_all_iff
  proof
    fix r assume "r \<in> set ?t"
    then obtain b where b: "b \<in> set (backups w)"
      and r: "r = (if backup_id b = bid then ?u b else b)" by auto
    from assms(1) b have bi: "run_inv b"
      unfolding hist_ok_def table_inv_def list_all_iff by blast
    show "run_inv r"
    proof (cases "backup_id b = bid")
      case True
      with r show ?thesis by (simp add: run_inv_def)
    next
      case False
      with bi r show ?thesis by simp
    qed
  qed
  have "backups (completeRun e nd volName fname bid storagePath fileSize w) = ?t"
    and "history (completeRun e nd volName fname bid storagePath fileSize w) = history w @ [?t]"
    by (simp_all add: completeRun_def prim_fields)
  with t assms(1) show ?thesis
    by (simp add: hist_ok_def)
qed

lemma enterRunning_fst: "fst (enterRunning e opts volName fname w) = runId opts w"
  by (simp add: enterRunning_def runId_def backupRepo_create_def Let_def split: option.splits)

lemma enterRunning_exists:
  assumes "run_exists opts w"
  shows "backupRepo_getById (runId opts w) (snd (enterRunning e opts volName fname w)) \<noteq> None"
proof -
  have c: "backupRepo_getById (next_backup_id w)
             (snd (backupRepo_create e (nodeId opts) volName fname (storageType opts) Running w)) \<noteq> None"
    by (simp add: getById_None_iff backupRepo_create_def commit_def Let_def)
  show ?thesis
  proof (cases "backupId opts")
    case None
    with c show ?thesis by (simp add: enterRunning_def runId_def)
  next
    case (Some b)
    show ?thesis
    proof (cases "b = 0")
      case True
      with Some c show ?thesis by (simp add: enterRunning_def runId_def)
    next
      case False
      with Some assms have "backupRepo_getById b w \<noteq> None" by (simp add: run_exists_def)
      with Some False show ?thesis
        by (simp add: enterRunning_def runId_def getById_update)
    qed
  qed
qed

lemma enterRunning_missing:
  assumes "\<not> run_exists opts w"
  shows "backupRepo_getById (runId opts w) (snd (enterRunning e opts volName fname w)) = None"
proof -
  from assms obtain b where b: "backupId opts = Some b" "b \<noteq> 0" "backupRepo_getById b w = None"
    by (auto simp: run_exists_def split: option.splits)
  then show ?thesis
    by (simp add: enterRunning_def runId_def getById_update)
qed

text \<open>
  A run whose record is there is the \<^verbatim>\<open>try\<close> block and, on an error, the \<^verbatim>\<open>catch\<close> block;
  a run whose record is missing raises at its first log line.
\<close>

lemma createBackup_unfold:
  assumes "nodes w (nodeId opts) = Some nd" "run_exists opts w"
  shows "createBackup e opts w =
           (case tryBlock e nd opts (selectorOf opts) (artifactName e nd (selectorOf opts))
                   (runId opts w) (started e opts nd w) of
              (None, w4) \<Rightarrow> (Inr (runId opts w), w4)
            | (Some msg, w4) \<Rightarrow>
                (Inl msg, catchBlock nd (selectorOf opts) (runId opts w) msg w4))"
proof -
  obtain bid w1 where er:
    "enterRunning e opts (selectorOf opts) (artifactName e nd (selectorOf opts)) w = (bid, w1)"
    by (cases "enterRunning e opts (selectorOf opts) (artifactName e nd (selectorOf opts)) w") auto
  then have bid: "bid = runId opts w"
    using enterRunning_fst[of e opts "selectorOf opts" "artifactName e nd (selectorOf opts)" w]
    by simp
  have ex: "backupRepo_getById bid w1 \<noteq> None"
    using enterRunning_exists[OF assms(2), of e "selectorOf opts" "artifactName e nd (selectorOf opts)"]
      er bid by simp
  show ?thesis
    using assms(1) er bid ex by (auto simp add: createBackup_def started_def Let_def)
qed

lemma createBackup_no_record:
  assumes "nodes w (nodeId opts) = Some nd" "\<not> run_exists opts w"
  shows "createBackup e opts w =
           (Inl ''FOREIGN KEY constraint failed'',
            logLine Info (StartingBackup (artifactName e nd (selectorOf opts)))
              (snd (enterRunning e opts (selectorOf opts) (artifactName e nd (selectorOf opts)) w)))"
proof -
  obtain bid w1 where er:
    "enterRunning e opts (selectorOf opts) (artifactName e nd (selectorOf opts)) w = (bid, w1)"
    by (cases "enterRunning e opts (selectorOf opts) (artifactName e nd (selectorOf opts)) w") auto
  then have bid: "bid = runId opts w"
    using enterRunning_fst[of e opts "selectorOf opts" "artifactName e nd (selectorOf opts)" w]
    by simp
  have ex: "backupRepo_getById bid w1 = None"
    using enterRunning_missing[OF assms(2), of e "selectorOf opts" "artifactName e nd (selectorOf opts)"]
      er bid by simp
  show ?thesis
    using assms(1) er bid ex by (simp add: createBackup_def Let_def)
qed

lemma create_fields:
  "nodes (snd (backupRepo_create e nid vol fname stype st w)) = nodes w"
  "settings_tbl (snd (backupRepo_create e nid vol fname stype st w)) = settings_tbl w"
  "backup_logs (snd (backupRepo_create e nid vol fname stype st w)) = backup_logs w"
  "events (snd (backupRepo_create e nid vol fname stype st w)) = events w"
  "session_open (snd (backupRepo_create e nid vol fname stype st w)) = session_open w"
  "artifacts (snd (backupRepo_create e nid vol fname stype st w)) = artifacts w"
  "webhooks (snd (backupRepo_create e nid vol fname stype st w)) = webhooks w"
  by (simp_all add: backupRepo_create_def commit_def Let_def)

lemma enterRunning_fields:
  "nodes (snd (enterRunning e opts volName fname w)) = nodes w"
  "settings_tbl (snd (enterRunning e opts volName fname w)) = settings_tbl w"
  "backup_logs (snd (enterRunning e opts volName fname w)) = backup_logs w"
  "events (snd (enterRunning e opts volName fname w)) = events w"
  "session_open (snd (enterRunning e opts volName fname w)) = session_open w"
  "artifacts (snd (enterRunning e opts volName fname w)) = artifacts w"
  "webhooks (snd (enterRunning e opts volName fname w)) = webhooks w"
  by (simp_all add: enterRunning_def create_fields update_fields split: option.splits)

lemma started_fields:
  "nodes (started e opts nd w) = nodes w"
  "settings_tbl (started e opts nd w) = settings_tbl w"
  "events (started e opts nd w) = events w"
  "session_open (started e opts nd w) = session_open w"
  "artifacts (started e opts nd w) = artifacts w"
  by (simp_all add: started_def prim_fields enterRunning_fields)

lemma create_invariant:
  assumes "hist_ok w" "fresh_ids w"
  shows "hist_ok (snd (backupRepo_create e nid vol fname stype Running w))
         \<and> open_run (next_backup_id w) (snd (backupRepo_create e nid vol fname stype Running w))"
proof -
  let ?r = "\<lparr>backup_id = next_backup_id w, node_id = nid, volume_name = vol, filename = fname,
             size_bytes = 0, storage_type = stype, storage_path = None, status = Running,
             progress = 0, error_message = None, started_at = Some (ts_started e),
             completed_at = None, created_at = created_now e\<rparr>"
  have b: "backups (snd (backupRepo_create e nid vol fname stype Running w)) = backups w @ [?r]"
    and h: "history (snd (backupRepo_create e nid vol fname stype Running w))
              = history w @ [backups w @ [?r]]"
    by (simp_all add: backupRepo_create_def commit_def Let_def)
  have r: "run_inv ?r" by (simp add: run_inv_def)
  have t: "table_inv (backups w @ [?r])"
    using assms(1) r by (simp add: hist_ok_def table_inv_def)
  have o: "list_all (\<lambda>r. backup_id r = next_backup_id w \<longrightarrow> status r \<noteq> Completed \<and> storage_path r = None)
             (backups w @ [?r])"
    using assms(2) by (auto simp: fresh_ids_def list_all_iff)
  show ?thesis
    using t o assms(1) unfolding hist_ok_def open_run_def b h by simp
qed

lemma pending_open_run:
  assumes "hist_ok w" "list_all (\<lambda>r. backup_id r = b \<longrightarrow> status r = Pending) (backups w)"
  shows "open_run b w"
  unfolding open_run_def list_all_iff
proof
  fix r assume r: "r \<in> set (backups w)"
  with assms(1) have i: "run_inv r"
    unfolding hist_ok_def table_inv_def list_all_iff by blast
  from assms(2) r have p: "backup_id r = b \<longrightarrow> status r = Pending"
    unfolding list_all_iff by blast
  show "backup_id r = b \<longrightarrow> status r \<noteq> Completed \<and> storage_path r = None"
    using i p by (auto simp: run_inv_def)
qed

lemma enterRunning_invariant:
  assumes "hist_ok w" "fresh_ids w" "supplied_pending opts w"
  shows "hist_ok (snd (enterRunning e opts volName fname w))
         \<and> open_run (runId opts w) (snd (enterRunning e opts volName fname w))"
proof (cases "backupId opts")
  case None
  then show ?thesis
    using create_invariant[OF assms(1,2)] by (simp add: enterRunning_def runId_def)
next
  case (Some b)
  show ?thesis
  proof (cases "b = 0")
    case True
    with Some show ?thesis
      using create_invariant[OF assms(1,2)] by (simp add: enterRunning_def runId_def)
  next
    case False
    with Some assms(3) have "list_all (\<lambda>r. backup_id r = b \<longrightarrow> status r = Pending) (backups w)"
      by (simp add: supplied_pending_def)
    with assms(1) have o: "open_run b w" by (rule pending_open_run)
    have "frame b w (backupRepo_update b
             (\<lambda>r. r\<lparr>filename := fname, status := Running, started_at := Some (ts_started e)\<rparr>) w)"
      by (rule frame_update[OF frame_refl]) (auto simp: run_inv_def)
    with assms(1) o Some False show ?thesis
      by (simp add: frame_def enterRunning_def runId_def)
  qed
qed

lemma started_invariant:
  assumes "hist_ok w" "fresh_ids w" "supplied_pending opts w"
  shows "hist_ok (started e opts nd w) \<and> open_run (runId opts w) (started e opts nd w)"
proof -
  let ?w1 = "snd (enterRunning e opts (selectorOf opts) (artifactName e nd (selectorOf opts)) w)"
  have "frame (runId opts w) ?w1 (started e opts nd w)"
    unfolding started_def
    by (intro frame_sendWebhook frame_updateProgress frame_backupLog frame_refl) simp
  with enterRunning_invariant[OF assms] show ?thesis
    by (simp add: frame_def)
qed

lemma createBackup_hist_ok:
  assumes "hist_ok w" "fresh_ids w" "supplied_pending opts w"
  shows "hist_ok (snd (createBackup e opts w))"
proof (cases "nodes w (nodeId opts)")
  case None
  with assms(1) show ?thesis by (simp add: createBackup_def)
next
  case (Some nd)
  let ?bid = "runId opts w"
  let ?w3 = "started e opts nd w"
  let ?vol = "selectorOf opts"
  let ?f = "artifactName e nd ?vol"
  show ?thesis
  proof (cases "run_exists opts w")
    case False
    have "hist_ok (snd (enterRunning e opts ?vol ?f w))"
      using enterRunning_invariant[OF assms] by simp
    then have "hist_ok (logLine Info (StartingBackup ?f) (snd (enterRunning e opts ?vol ?f w)))"
      by (simp add: hist_ok_def prim_fields)
    then show ?thesis
      using createBackup_no_record[OF Some False, of e] by simp
  next
    case True
    note u = createBackup_unfold[OF Some True, of e]
    have s: "hist_ok ?w3 \<and> open_run ?bid ?w3"
      using assms by (rule started_invariant)
    obtain r w4 where t: "tryBlock e nd opts ?vol ?f ?bid ?w3 = (r, w4)"
      by (cases "tryBlock e nd opts ?vol ?f ?bid ?w3") auto
    have fin: "finished e nd ?vol ?f ?bid ?w3 r w4"
      using tryBlock_finished[OF frame_refl, of e nd ?vol ?f ?bid ?w3 opts] t by simp
    show ?thesis
    proof (cases r)
      case None
      with fin obtain w5 sp sz where f5: "frame ?bid ?w3 w5"
        and w4: "w4 = completeRun e nd ?vol ?f ?bid sp sz w5"
        by (auto simp: finished_def)
      from f5 s have "hist_ok w5 \<and> open_run ?bid w5" by (simp add: frame_def)
      then have "hist_ok w4" unfolding w4 by (simp add: completeRun_hist_ok)
      with t None show ?thesis by (simp add: u)
    next
      case (Some msg)
      with fin have "frame ?bid ?w3 w4" by (simp add: finished_def)
      then have "frame ?bid ?w3 (catchBlock nd ?vol ?bid msg w4)" by (rule frame_catchBlock)
      with s have "hist_ok (catchBlock nd ?vol ?bid msg w4)" by (simp add: frame_def)
      with t Some show ?thesis by (simp add: u)
    qed
  qed
qed

lemma started_exists:
  assumes "run_exists opts w"
  shows "backupRepo_getById (runId opts w) (started e opts nd w) \<noteq> None"
proof -
  let ?w1 = "snd (enterRunning e opts (selectorOf opts) (artifactName e nd (selectorOf opts)) w)"
  have "frame (runId opts w) ?w1 (started e opts nd w)"
    unfolding started_def
    by (intro frame_sendWebhook frame_updateProgress frame_backupLog frame_refl) simp
  then show ?thesis
    using enterRunning_exists[OF assms] by (simp add: getById_frame)
qed

text \<open>A run that ends with an error has its record failed with that error.\<close>

lemma createBackup_failed:
  assumes "nodes w (nodeId opts) = Some nd" "run_exists opts w"
    and "fst (createBackup e opts w) = Inl msg"
  shows "\<exists>r. backupRepo_getById (runId opts w) (snd (createBackup e opts w)) = Some r
             \<and> status r = Failed \<and> progress r = 0 \<and> error_message r = Some msg"
proof -
  let ?bid = "runId opts w"
  let ?w3 = "started e opts nd w"
  let ?vol = "selectorOf opts"
  let ?f = "artifactName e nd ?vol"
  obtain r w4 where t: "tryBlock e nd opts ?vol ?f ?bid ?w3 = (r, w4)"
    by (cases "tryBlock e nd opts ?vol ?f ?bid ?w3") auto
  have fin: "finished e nd ?vol ?f ?bid ?w3 r w4"
    using tryBlock_finished[OF frame_refl, of e nd ?vol ?f ?bid ?w3 opts] t by simp
  note u = createBackup_unfold[OF assms(1,2), of e]
  from assms(3) t have r: "r = Some msg"
    by (cases r) (simp_all add: u)
  with fin have "frame ?bid ?w3 w4" by (simp add: finished_def)
  then have "backupRepo_getById ?bid w4 \<noteq> None"
    using started_exists[OF assms(2), of e nd] by (simp add: getById_frame)
  then obtain r4 where r4: "backupRepo_getById ?bid w4 = Some r4" by auto
  have "snd (createBackup e opts w) = catchBlock nd ?vol ?bid msg w4"
    using t r by (simp add: u)
  then show ?thesis
    using r4 by (simp add: getById_catchBlock)
qed

lemma map_filter_append: "List.map_filter f (xs @ ys) = List.map_filter f xs @ List.map_filter f ys"
  by (simp add: List.map_filter_def)

lemma ptero_vols_append: "ptero_vols (xs @ ys) = ptero_vols xs @ ptero_vols ys"
  by (simp add: ptero_vols_def map_filter_append)

lemma downloads_append: "downloads (xs @ ys) = downloads xs @ downloads ys"
  by (simp add: downloads_def map_filter_append)

lemma dropWhile_append_member:
  "x \<in> set (dropWhile P xs) \<Longrightarrow> dropWhile P (xs @ ys) = dropWhile P xs @ ys"
  by (induction xs) (auto split: if_splits)

lemma start_after_download_append:
  "start_after_download v xs \<Longrightarrow> start_after_download v (xs @ ys)"
  unfolding start_after_download_def
  by (frule dropWhile_append_member[where ys = ys]) simp

lemma stop_followed_append:
  "stop_followed xs \<Longrightarrow> stop_followed ys \<Longrightarrow> stop_followed (xs @ ys)"
  by (induction xs rule: stop_followed.induct) (auto intro: start_after_download_append)

lemma trace_ok_append: "trace_ok xs \<Longrightarrow> trace_ok ys \<Longrightarrow> trace_ok (xs @ ys)"
  by (simp add: trace_ok_def ptero_vols_append stop_followed_append)

lemma stop_followed_quiet: "ptero_vols es = [] \<Longrightarrow> stop_followed es"
  by (induction es rule: stop_followed.induct)
     (simp_all add: ptero_vols_def List.map_filter_def split: if_splits)

lemma ev_rel_refl: "ev_rel [] w w"
  by (simp add: ev_rel_def trace_ok_def ptero_vols_def downloads_def List.map_filter_def)

lemma ev_rel_trans: "ev_rel vs w w1 \<Longrightarrow> ev_rel vs' w1 w2 \<Longrightarrow> ev_rel (vs @ vs') w w2"
  unfolding ev_rel_def
  by (elim exE conjE) (auto simp: trace_ok_append downloads_append)

lemma ev_rel_silent: "ev_rel vs w w' \<Longrightarrow> events w'' = events w' \<Longrightarrow> ev_rel vs w w''"
  by (simp add: ev_rel_def)

lemma ev_rel_block:
  assumes "ev_rel vs w w'" "events w'' = events w' @ es" "trace_ok es"
  shows "ev_rel (vs @ downloads es) w w''"
proof -
  have "ev_rel (downloads es) w' w''"
    using assms(2,3) by (simp add: ev_rel_def)
  with assms(1) show ?thesis by (rule ev_rel_trans)
qed

lemma trace_ok_quiet: "ptero_vols es = [] \<Longrightarrow> trace_ok es"
  by (simp add: trace_ok_def stop_followed_quiet)

lemma ev_rel_emit:
  "ptero_target ev = None \<Longrightarrow> download_target ev = None \<Longrightarrow> ev_rel vs w w' \<Longrightarrow>
   ev_rel vs w (emit ev w')"
  using ev_rel_block[of vs w w' "emit ev w'" "[ev]"]
  by (simp add: emit_fields trace_ok_quiet ptero_vols_def downloads_def List.map_filter_def)

lemma ev_rel_backupLog: "ev_rel vs w w' \<Longrightarrow> ev_rel vs w (backupLog i lvl m w')"
  by (erule ev_rel_silent) (simp add: prim_fields)

lemma ev_rel_logLine: "ev_rel vs w w' \<Longrightarrow> ev_rel vs w (logLine lvl m w')"
  by (erule ev_rel_silent) (simp add: prim_fields)

lemma ev_rel_sendWebhook: "ev_rel vs w w' \<Longrightarrow> ev_rel vs w (sendWebhook ty t d f w')"
  by (erule ev_rel_silent) (simp add: prim_fields)

lemma ev_rel_updateProgress: "ev_rel vs w w' \<Longrightarrow> ev_rel vs w (backupRepo_updateProgress i p w')"
  by (erule ev_rel_silent) (simp add: prim_fields)

lemma ev_rel_update: "ev_rel vs w w' \<Longrightarrow> ev_rel vs w (backupRepo_update i upd w')"
  by (erule ev_rel_silent) (simp add: prim_fields)

lemma ev_rel_fail: "ev_rel vs w w' \<Longrightarrow> ev_rel vs w (backupRepo_fail i msg w')"
  by (erule ev_rel_silent) (simp add: prim_fields)

lemma ev_rel_session: "ev_rel vs w w' \<Longrightarrow> ev_rel vs w (w'\<lparr>session_open := b\<rparr>)"
  by (erule ev_rel_silent) simp

lemma ev_rel_artifacts: "ev_rel vs w w' \<Longrightarrow> ev_rel vs w (w'\<lparr>artifacts := a\<rparr>)"
  by (erule ev_rel_silent) simp

lemmas ev_rel_intros = ev_rel_emit ev_rel_backupLog ev_rel_logLine ev_rel_sendWebhook
  ev_rel_updateProgress ev_rel_update ev_rel_fail ev_rel_session ev_rel_artifacts

lemma ev_rel_connectAndList:
  "ev_rel vs w w' \<Longrightarrow> ev_rel vs w (snd (connectAndList e nd vpath bid volName w'))"
  unfolding connectAndList_def Let_def
  by (simp split: option.splits sum.splits add: ev_rel_intros)

lemma ev_rel_closeSession: "ev_rel vs w w' \<Longrightarrow> ev_rel vs w (closeSession bid w')"
  unfolding closeSession_def
  by (intro ev_rel_intros) simp_all

lemma ev_rel_archiveStep: "ev_rel vs w w' \<Longrightarrow> ev_rel vs w (snd (archiveStep e bid w'))"
  unfolding archiveStep_def Let_def
  by (simp split: option.splits sum.splits add: ev_rel_intros)

lemma ev_rel_uploadStep: "ev_rel vs w w' \<Longrightarrow> ev_rel vs w (snd (uploadStep e opts fname bid w'))"
  unfolding uploadStep_def Let_def
  by (simp split: option.splits sum.splits add: ev_rel_intros)

lemma ev_rel_cleanup: "ev_rel vs w w' \<Longrightarrow> ev_rel vs w (snd (cleanup e bid fname w'))"
  unfolding cleanup_def Let_def
  by (simp split: option.splits add: ev_rel_intros)

lemma ev_rel_completeRun:
  "ev_rel vs w w' \<Longrightarrow> ev_rel vs w (completeRun e nd volName fname bid sp sz w')"
  unfolding completeRun_def by (intro ev_rel_intros)

lemma ev_rel_catchBlock: "ev_rel vs w w' \<Longrightarrow> ev_rel vs w (catchBlock nd volName bid msg w')"
  unfolding catchBlock_def by (intro ev_rel_intros)

lemma ev_rel_archiveAndUpload:
  "ev_rel vs w w' \<Longrightarrow> ev_rel vs w (snd (archiveAndUpload e nd opts volName fname bid w'))"
proof -
  assume a: "ev_rel vs w w'"
  obtain r1 w1 where s1: "archiveStep e bid (closeSession bid w') = (r1, w1)"
    by (cases "archiveStep e bid (closeSession bid w')") auto
  have e1: "ev_rel vs w w1"
    using ev_rel_archiveStep[OF ev_rel_closeSession[OF a, of bid], of e bid] s1 by simp
  obtain r2 w2 where s2: "uploadStep e opts fname bid w1 = (r2, w2)"
    by (cases "uploadStep e opts fname bid w1") auto
  have e2: "ev_rel vs w w2"
    using ev_rel_uploadStep[OF e1, of e opts fname bid] s2 by simp
  obtain r3 w3 where s3: "cleanup e bid fname w2 = (r3, w3)"
    by (cases "cleanup e bid fname w2") auto
  have e3: "ev_rel vs w w3"
    using ev_rel_cleanup[OF e2, of e bid fname] s3 by simp
  show ?thesis
    using s1 s2 s3 e1 e2 e3 ev_rel_completeRun[OF e3]
    by (simp add: archiveAndUpload_def split: sum.splits option.splits)
qed

lemma waitOffline_events:
  "\<exists>m. events (waitOffline e vol n k w) = events w @ replicate m (EvGetServerState vol)"
proof (induction n arbitrary: k w)
  case 0
  have "events (waitOffline e vol 0 k w) = events w @ replicate 0 (EvGetServerState vol)"
    by simp
  then show ?case by blast
next
  case (Suc n)
  let ?w1 = "emit (EvGetServerState vol) w"
  have one: "events ?w1 = events w @ replicate 1 (EvGetServerState vol)"
    by (simp add: emit_fields)
  show ?case
  proof (cases "getServerState_r e vol k")
    case (Inl err)
    then have "waitOffline e vol (Suc n) k w = ?w1" by (simp add: Let_def)
    with one show ?thesis by metis
  next
    case (Inr st)
    show ?thesis
    proof (cases "st = Some ''offline''")
      case True
      with Inr have "waitOffline e vol (Suc n) k w = ?w1" by (simp add: Let_def)
      with one show ?thesis by metis
    next
      case False
      with Inr have eq: "waitOffline e vol (Suc n) k w = waitOffline e vol n (Suc k) ?w1"
        by (simp add: Let_def)
      from Suc.IH[of "Suc k" ?w1] obtain m where
        "events (waitOffline e vol n (Suc k) ?w1) = events ?w1 @ replicate m (EvGetServerState vol)"
        by blast
      then have "events (waitOffline e vol n (Suc k) ?w1)
                   = events w @ replicate (Suc m) (EvGetServerState vol)"
        by (simp add: emit_fields replicate_append_same)
      with eq show ?thesis by metis
    qed
  qed
qed

lemma safeStop_events:
  "\<exists>m. events (snd (safeStop e bid vol w))
         = events w @ stopEvents vol (fst (safeStop e bid vol w)) m"
proof -
  let ?w1 = "emit (EvGetServerState vol) w"
  show ?thesis
  proof (cases "getServerState_r e vol 0")
    case (Inl err)
    then show ?thesis by (simp add: safeStop_def Let_def stopEvents_def emit_fields)
  next
    case (Inr st)
    show ?thesis
    proof (cases "truthy st \<and> st \<noteq> Some ''offline''")
      case False
      with Inr show ?thesis by (auto simp: safeStop_def Let_def stopEvents_def emit_fields)
    next
      case True
      let ?w3 = "emit (EvSetServerState vol Stop) (backupLog bid Info (SafeStopping vol) ?w1)"
      have e3: "events ?w3 = events w @ [EvGetServerState vol, EvSetServerState vol Stop]"
        by (simp add: prim_fields)
      show ?thesis
      proof (cases "setServerState_r e vol Stop")
        case (Inl err)
        have "events ?w3 = events w @ stopEvents vol True 0"
          using e3 by (simp add: stopEvents_def)
        with Inr True Inl show ?thesis
          by (simp add: safeStop_def Let_def) blast
      next
        case r: (Inr accepted)
        obtain m where "events (waitOffline e vol 12 1 ?w3)
                          = events ?w3 @ replicate m (EvGetServerState vol)"
          using waitOffline_events[of e vol 12 1 ?w3] by blast
        then have "events (waitOffline e vol 12 1 ?w3) = events w @ stopEvents vol True m"
          using e3 by (simp add: stopEvents_def)
        with Inr True r show ?thesis
          by (simp add: safeStop_def Let_def) blast
      qed
    qed
  qed
qed

lemma stopPhase_events:
  "\<exists>m. events (snd (stopPhase e bid vol w))
         = events w @ (if isUuid vol then stopEvents vol (fst (stopPhase e bid vol w)) m else [])"
  using safeStop_events[of e bid vol w] by (simp add: stopPhase_def)

lemma stopPhase_wasRunning: "fst (stopPhase e bid vol w) \<Longrightarrow> isUuid vol"
  by (simp add: stopPhase_def split: if_splits)

lemma downloadPhase_events:
  "events (downloadPhase e bid vpath n i vol w) = events w @ [EvDownloadDir vpath vol]"
  by (simp add: downloadPhase_def Let_def prim_fields split: option.splits)

lemma safeStart_events: "events (safeStart e bid vol w) = events w @ [EvSetServerState vol Start]"
  by (simp add: safeStart_def Let_def prim_fields split: sum.splits)

lemma startPhase_events:
  "events (startPhase e bid vol wr w)
     = events w @ (if wr then [EvSetServerState vol Start] else [])"
  by (simp add: startPhase_def safeStart_events)

lemma ptero_vols_polls: "ptero_vols (replicate m (EvGetServerState vol) @ es) = replicate m vol @ ptero_vols es"
  by (induction m) (simp_all add: ptero_vols_def List.map_filter_def)

lemma stop_followed_polls: "stop_followed (replicate m (EvGetServerState vol) @ es) = stop_followed es"
  by (induction m) simp_all

lemma dropWhile_polls:
  "dropWhile (\<lambda>ev. download_target ev \<noteq> Some v) (replicate m (EvGetServerState vol) @ es)
     = dropWhile (\<lambda>ev. download_target ev \<noteq> Some v) es"
  by (induction m) simp_all

lemma volumeEvents_trace_ok:
  assumes "wr \<longrightarrow> isUuid vol"
  shows "trace_ok (volumeEvents bid vpath vol wr m)"
proof (cases "isUuid vol")
  case False
  with assms show ?thesis
    by (simp add: volumeEvents_def trace_ok_def ptero_vols_def List.map_filter_def)
next
  case True
  show ?thesis
  proof (cases wr)
    case False
    with True show ?thesis
      by (simp add: volumeEvents_def stopEvents_def trace_ok_def ptero_vols_def
          List.map_filter_def)
  next
    case wr: True
    have p: "ptero_vols (volumeEvents bid vpath vol True m) = vol # vol # replicate m vol @ [vol]"
      using True
      by (simp add: volumeEvents_def stopEvents_def ptero_vols_polls[simplified ptero_vols_def]
          ptero_vols_def List.map_filter_def)
    have s: "stop_followed (volumeEvents bid vpath vol True m)"
      using True
      by (simp add: volumeEvents_def stopEvents_def stop_followed_polls
          start_after_download_def dropWhile_polls)
    show ?thesis
      using p s True wr by (simp add: trace_ok_def list_all_iff)
  qed
qed

lemma volumeEvents_downloads: "downloads (volumeEvents bid vpath vol wr m) = [vol]"
proof -
  have "downloads (replicate m (EvGetServerState vol)) = []"
    by (induction m) (simp_all add: downloads_def List.map_filter_def)
  then show ?thesis
    by (simp add: volumeEvents_def stopEvents_def downloads_def List.map_filter_def)
qed

lemma processVolume_events:
  "(\<exists>err. fst (processVolume e bid vpath n i vol w) = Some err
          \<and> events (snd (processVolume e bid vpath n i vol w)) = events w @ [EvMkdir (VolDir bid vol)])
   \<or> (\<exists>wr m. fst (processVolume e bid vpath n i vol w) = None \<and> (wr \<longrightarrow> isUuid vol)
          \<and> events (snd (processVolume e bid vpath n i vol w))
              = events w @ volumeEvents bid vpath vol wr m)"
proof (cases "mkdir_r e (VolDir bid vol)")
  case (Some err)
  then show ?thesis by (simp add: processVolume_def Let_def emit_fields)
next
  case None
  let ?w1 = "emit (EvMkdir (VolDir bid vol)) w"
  obtain wr w2 where s: "stopPhase e bid vol ?w1 = (wr, w2)"
    by (cases "stopPhase e bid vol ?w1") auto
  from stopPhase_events[of e bid vol ?w1] obtain m where
    "events (snd (stopPhase e bid vol ?w1))
       = events ?w1 @ (if isUuid vol then stopEvents vol (fst (stopPhase e bid vol ?w1)) m else [])"
    by blast
  then have m: "events w2 = events ?w1 @ (if isUuid vol then stopEvents vol wr m else [])"
    using s by simp
  have u: "wr \<longrightarrow> isUuid vol"
    using stopPhase_wasRunning[of e bid vol ?w1] s by simp
  have "events (snd (processVolume e bid vpath n i vol w)) = events w @ volumeEvents bid vpath vol wr m"
    using None s m
    by (simp add: processVolume_def Let_def prim_fields startPhase_events downloadPhase_events
        volumeEvents_def)
  moreover have "fst (processVolume e bid vpath n i vol w) = None"
    using None s by (simp add: processVolume_def Let_def)
  ultimately show ?thesis using u by blast
qed

lemma ev_rel_processVolume:
  assumes "ev_rel vs w w'"
  shows "ev_rel (vs @ (if fst (processVolume e bid vpath n i vol w') = None then [vol] else []))
           w (snd (processVolume e bid vpath n i vol w'))"
  using processVolume_events[of e bid vpath n i vol w']
proof (elim disjE exE conjE)
  fix err
  assume f: "fst (processVolume e bid vpath n i vol w') = Some err"
    and ev: "events (snd (processVolume e bid vpath n i vol w')) = events w' @ [EvMkdir (VolDir bid vol)]"
  have "trace_ok [EvMkdir (VolDir bid vol)]"
    by (simp add: trace_ok_quiet ptero_vols_def List.map_filter_def)
  from ev_rel_block[OF assms ev this] f show ?thesis
    by (simp add: downloads_def List.map_filter_def)
next
  fix wr m
  assume f: "fst (processVolume e bid vpath n i vol w') = None"
    and u: "wr \<longrightarrow> isUuid vol"
    and ev: "events (snd (processVolume e bid vpath n i vol w'))
               = events w' @ volumeEvents bid vpath vol wr m"
  from ev_rel_block[OF assms ev volumeEvents_trace_ok[OF u]] f show ?thesis
    by (simp add: volumeEvents_downloads)
qed

lemma ev_rel_downloadVolumes:
  "ev_rel vs w w' \<Longrightarrow>
   \<exists>vs'. ev_rel (vs @ vs') w (snd (downloadVolumes e bid vpath n i vols w'))
        \<and> (fst (downloadVolumes e bid vpath n i vols w') = None \<longrightarrow> vs' = vols)"
proof (induction vols arbitrary: i w' vs)
  case Nil
  then show ?case by simp
next
  case (Cons vol vols)
  obtain r w1 where p: "processVolume e bid vpath n i vol w' = (r, w1)"
    by (cases "processVolume e bid vpath n i vol w'") auto
  have e1: "ev_rel (vs @ (if r = None then [vol] else [])) w w1"
    using ev_rel_processVolume[OF Cons.prems, of e bid vpath n i vol] p by simp
  show ?case
  proof (cases r)
    case (Some err)
    with e1 have "ev_rel (vs @ []) w w1" by simp
    moreover have "fst (downloadVolumes e bid vpath n i (vol # vols) w') \<noteq> None"
      using p Some by simp
    moreover have "snd (downloadVolumes e bid vpath n i (vol # vols) w') = w1"
      using p Some by simp
    ultimately have "ev_rel (vs @ []) w (snd (downloadVolumes e bid vpath n i (vol # vols) w'))
        \<and> (fst (downloadVolumes e bid vpath n i (vol # vols) w') = None \<longrightarrow> [] = vol # vols)"
      by simp
    then show ?thesis by (rule exI)
  next
    case None
    with e1 have "ev_rel (vs @ [vol]) w w1" by simp
    have "\<exists>vs'. ev_rel ((vs @ [vol]) @ vs') w (snd (downloadVolumes e bid vpath n (Suc i) vols w1))
            \<and> (fst (downloadVolumes e bid vpath n (Suc i) vols w1) = None \<longrightarrow> vs' = vols)"
      using \<open>ev_rel (vs @ [vol]) w w1\<close> by (rule Cons.IH)
    then obtain vs' where
      a: "ev_rel ((vs @ [vol]) @ vs') w (snd (downloadVolumes e bid vpath n (Suc i) vols w1))"
      and b: "fst (downloadVolumes e bid vpath n (Suc i) vols w1) = None \<longrightarrow> vs' = vols"
      by (elim exE conjE)
    have "ev_rel (vs @ (vol # vs')) w (snd (downloadVolumes e bid vpath n i (vol # vols) w'))"
      using a p None by simp
    moreover have "fst (downloadVolumes e bid vpath n i (vol # vols) w') = None \<longrightarrow> vol # vs' = vol # vols"
      using b p None by simp
    ultimately have "ev_rel (vs @ (vol # vs')) w (snd (downloadVolumes e bid vpath n i (vol # vols) w'))
        \<and> (fst (downloadVolumes e bid vpath n i (vol # vols) w') = None \<longrightarrow> vol # vs' = vol # vols)"
      by simp
    then show ?thesis by (rule exI)
  qed
qed

lemma connectAndList_fst:
  assumes "connect_r e = None" "list_r e = Inr entries"
  shows "fst (connectAndList e nd vpath bid volName w) = Inr (volumesOf volName entries)"
  using assms by (simp add: connectAndList_def volumesOf_def Let_def)

lemma processVolume_fst:
  "mkdir_r e (VolDir bid vol) = None \<Longrightarrow> fst (processVolume e bid vpath n i vol w) = None"
  by (simp add: processVolume_def Let_def split: prod.splits)

lemma downloadVolumes_fst:
  "(\<And>p. mkdir_r e p = None) \<Longrightarrow> fst (downloadVolumes e bid vpath n i vols w) = None"
proof (induction vols arbitrary: i w)
  case Nil
  then show ?case by simp
next
  case (Cons vol vols)
  obtain r w1 where p: "processVolume e bid vpath n i vol w = (r, w1)"
    by (cases "processVolume e bid vpath n i vol w") auto
  have "r = None"
    using processVolume_fst[of e bid vol vpath n i w] Cons.prems p by simp
  with p Cons.IH[OF Cons.prems, of "Suc i" w1] show ?case by simp
qed

lemma archiveStep_fst:
  "fst (archiveStep e bid w)
     = (case archive_r e of Some err \<Rightarrow> Inl err | None \<Rightarrow> stat_r e)"
  by (simp add: archiveStep_def Let_def split: option.splits sum.splits)

lemma uploadStep_fst: "fst (uploadStep e opts fname bid w) = upload_r e"
  by (simp add: uploadStep_def Let_def split: sum.splits)

lemma cleanup_fst:
  "fst (cleanup e bid fname w) = (case rm_r e of Some err \<Rightarrow> Some err | None \<Rightarrow> unlink_r e)"
  by (simp add: cleanup_def Let_def split: option.splits)

lemma archiveAndUpload_fst:
  "fst (archiveAndUpload e nd opts volName fname bid w) = afterLoop e"
proof -
  obtain r1 w1 where s1: "archiveStep e bid (closeSession bid w) = (r1, w1)"
    by (cases "archiveStep e bid (closeSession bid w)") auto
  obtain r2 w2 where s2: "uploadStep e opts fname bid w1 = (r2, w2)"
    by (cases "uploadStep e opts fname bid w1") auto
  obtain r3 w3 where s3: "cleanup e bid fname w2 = (r3, w3)"
    by (cases "cleanup e bid fname w2") auto
  have r1: "r1 = (case archive_r e of Some err \<Rightarrow> Inl err | None \<Rightarrow> stat_r e)"
    using archiveStep_fst[of e bid "closeSession bid w"] s1 by simp
  have r2: "r2 = upload_r e"
    using uploadStep_fst[of e opts fname bid w1] s2 by simp
  have r3: "r3 = (case rm_r e of Some err \<Rightarrow> Some err | None \<Rightarrow> unlink_r e)"
    using cleanup_fst[of e bid fname w2] s3 by simp
  show ?thesis
    using s1 s2 s3 r1 r2 r3
    by (simp add: archiveAndUpload_def afterLoop_def split: option.splits sum.splits)
qed

lemma logs_mono: "frame bid w w' \<Longrightarrow> set (backup_logs w) \<subseteq> set (backup_logs w')"
  by (auto simp: frame_def)

lemma downloadPhase_warn:
  "case downloadDir_r e vol of
     None \<Rightarrow> True
   | Some err \<Rightarrow>
       (bid, Warn, FailedToDownload vol err) \<in> set (backup_logs (downloadPhase e bid vpath n i vol w))"
  by (simp add: downloadPhase_def Let_def prim_fields split: option.splits)

lemma processVolume_warn:
  assumes "fst (processVolume e bid vpath n i vol w) = None"
  shows "warned bid e (snd (processVolume e bid vpath n i vol w)) [vol]"
proof (cases "mkdir_r e (VolDir bid vol)")
  case (Some err)
  with assms show ?thesis by (simp add: processVolume_def Let_def)
next
  case None
  let ?w1 = "emit (EvMkdir (VolDir bid vol)) w"
  obtain wr w2 where s: "stopPhase e bid vol ?w1 = (wr, w2)"
    by (cases "stopPhase e bid vol ?w1") auto
  let ?w3 = "downloadPhase e bid vpath n i vol w2"
  have "frame bid ?w3 (startPhase e bid vol wr ?w3)"
    by (intro frame_startPhase frame_refl)
  then have m: "set (backup_logs ?w3) \<subseteq> set (backup_logs (startPhase e bid vol wr ?w3))"
    by (rule logs_mono)
  have l: "backup_logs (snd (processVolume e bid vpath n i vol w))
             = backup_logs (startPhase e bid vol wr ?w3)"
    using None s by (simp add: processVolume_def Let_def prim_fields)
  show ?thesis
    using downloadPhase_warn[where e = e and vol = vol and bid = bid and vpath = vpath and n = n and i = i and w = w2] m
    unfolding warned_def l by (auto split: option.splits)
qed

lemma warned_mono:
  "set (backup_logs w) \<subseteq> set (backup_logs w') \<Longrightarrow> warned bid e w vols \<Longrightarrow> warned bid e w' vols"
  unfolding warned_def list_all_iff by (auto split: option.splits)

lemma downloadVolumes_warned:
  assumes "fst (downloadVolumes e bid vpath n i vols w) = None" "i + length vols \<le> n"
  shows "warned bid e (snd (downloadVolumes e bid vpath n i vols w)) vols"
  using assms
proof (induction vols arbitrary: i w)
  case Nil
  then show ?case by (simp add: warned_def)
next
  case (Cons vol vols)
  obtain r w1 where p: "processVolume e bid vpath n i vol w = (r, w1)"
    by (cases "processVolume e bid vpath n i vol w") auto
  have r: "r = None"
    using Cons.prems(1) p by (cases r) simp_all
  have rest: "downloadVolumes e bid vpath n i (vol # vols) w
                = downloadVolumes e bid vpath n (Suc i) vols w1"
    using p r by simp
  have a: "warned bid e w1 [vol]"
    using processVolume_warn[of e bid vpath n i vol w] p r by simp
  have "frame bid w1 (snd (downloadVolumes e bid vpath n (Suc i) vols w1))"
    using Cons.prems(2) by (intro frame_downloadVolumes frame_refl) simp
  then have "set (backup_logs w1)
               \<subseteq> set (backup_logs (snd (downloadVolumes e bid vpath n (Suc i) vols w1)))"
    by (rule logs_mono)
  then have b: "warned bid e (snd (downloadVolumes e bid vpath n (Suc i) vols w1)) [vol]"
    using a by (rule warned_mono)
  have c: "warned bid e (snd (downloadVolumes e bid vpath n (Suc i) vols w1)) vols"
    using Cons.prems rest by (intro Cons.IH) simp_all
  show ?case
    using b c unfolding rest by (simp add: warned_def)
qed

text \<open>The \<^verbatim>\<open>try\<close> block when connecting, listing and creating the scratch directories succeed.\<close>

lemma tryBlock_reaches_archive:
  assumes "connect_r e = None" "list_r e = Inr entries" "\<And>p. mkdir_r e p = None"
  shows "\<exists>w3. tryBlock e nd opts volName fname bid w
                = archiveAndUpload e nd opts volName fname bid w3
              \<and> frame bid w w3 \<and> ev_rel (volumesOf volName entries) w w3
              \<and> warned bid e w3 (volumesOf volName entries)"
proof -
  define vpath where "vpath = (if truthy (volumes_path nd) then the (volumes_path nd) else volumesPath e)"
  let ?vols = "volumesOf volName entries"
  obtain r1 w1 where c: "connectAndList e nd vpath bid volName w = (r1, w1)"
    by (cases "connectAndList e nd vpath bid volName w") auto
  have r1: "r1 = Inr ?vols"
    using connectAndList_fst[OF assms(1,2), of nd vpath bid volName w] c by simp
  have f1: "frame bid w w1"
    using frame_connectAndList[OF frame_refl, of bid w e nd vpath volName] c by simp
  have e1: "ev_rel [] w w1"
    using ev_rel_connectAndList[OF ev_rel_refl, of w e nd vpath bid volName] c by simp
  let ?w2 = "emit (EvMkdir (TempDir bid)) w1"
  have f2: "frame bid w ?w2" using f1 by (rule frame_emit)
  have e2: "ev_rel [] w ?w2" using e1 by (intro ev_rel_emit) simp_all
  obtain r3 w3 where d: "downloadVolumes e bid vpath (length ?vols) 0 ?vols ?w2 = (r3, w3)"
    by (cases "downloadVolumes e bid vpath (length ?vols) 0 ?vols ?w2") auto
  have r3: "r3 = None"
    using downloadVolumes_fst[of e bid vpath "length ?vols" 0 ?vols ?w2] assms(3) d by simp
  have f3: "frame bid w w3"
    using frame_downloadVolumes[OF _ f2, of 0 ?vols "length ?vols" e vpath] d by simp
  have e3: "ev_rel ?vols w w3"
    using ev_rel_downloadVolumes[OF e2, of e bid vpath "length ?vols" 0 ?vols] d r3 by auto
  have w3: "warned bid e w3 ?vols"
    using downloadVolumes_warned[of e bid vpath "length ?vols" 0 ?vols ?w2] d r3 by simp
  have "tryBlock e nd opts volName fname bid w = archiveAndUpload e nd opts volName fname bid w3"
    using c r1 d r3 assms(3) by (simp add: tryBlock_def vpath_def Let_def)
  with f3 e3 w3 show ?thesis by blast
qed

lemma completeRun_logs:
  "set (backup_logs w) \<subseteq> set (backup_logs (completeRun e nd volName fname bid sp sz w))"
  by (auto simp: completeRun_def prim_fields)

lemma ev_rel_from: "events w0 = events w \<Longrightarrow> ev_rel vs w0 w' \<Longrightarrow> ev_rel vs w w'"
  by (simp add: ev_rel_def)

lemma ev_rel_tryBlock:
  assumes "ev_rel vs w w'"
  shows "\<exists>vs'. ev_rel (vs @ vs') w (snd (tryBlock e nd opts volName fname bid w'))"
proof -
  define vpath where "vpath = (if truthy (volumes_path nd) then the (volumes_path nd) else volumesPath e)"
  obtain r1 w1 where c: "connectAndList e nd vpath bid volName w' = (r1, w1)"
    by (cases "connectAndList e nd vpath bid volName w'") auto
  have e1: "ev_rel vs w w1"
    using ev_rel_connectAndList[OF assms, of e nd vpath bid volName] c by simp
  let ?w2 = "emit (EvMkdir (TempDir bid)) w1"
  have e2: "ev_rel vs w ?w2" using e1 by (intro ev_rel_emit) simp_all
  show ?thesis
  proof (cases r1)
    case (Inl err)
    with c e1 have "ev_rel (vs @ []) w (snd (tryBlock e nd opts volName fname bid w'))"
      by (simp add: tryBlock_def vpath_def)
    then show ?thesis by (rule exI)
  next
    case (Inr volumes)
    show ?thesis
    proof (cases "mkdir_r e (TempDir bid)")
      case (Some err)
      with c Inr e2 have "ev_rel (vs @ []) w (snd (tryBlock e nd opts volName fname bid w'))"
        by (simp add: tryBlock_def vpath_def Let_def)
      then show ?thesis by (rule exI)
    next
      case None
      obtain r3 w3 where d: "downloadVolumes e bid vpath (length volumes) 0 volumes ?w2 = (r3, w3)"
        by (cases "downloadVolumes e bid vpath (length volumes) 0 volumes ?w2") auto
      from ev_rel_downloadVolumes[OF e2, of e bid vpath "length volumes" 0 volumes]
      obtain vs' where e3: "ev_rel (vs @ vs') w w3"
        using d by auto
      show ?thesis
      proof (cases r3)
        case (Some err)
        with c Inr None d e3 have "ev_rel (vs @ vs') w (snd (tryBlock e nd opts volName fname bid w'))"
          by (simp add: tryBlock_def vpath_def Let_def)
        then show ?thesis by (rule exI)
      next
        case n3: None
        have "tryBlock e nd opts volName fname bid w' = archiveAndUpload e nd opts volName fname bid w3"
          using c Inr None d n3 by (simp add: tryBlock_def vpath_def Let_def)
        then have "ev_rel (vs @ vs') w (snd (tryBlock e nd opts volName fname bid w'))"
          using ev_rel_archiveAndUpload[OF e3, of e nd opts volName fname bid] by simp
        then show ?thesis by (rule exI)
      qed
    qed
  qed
qed

text \<open>The calls of a run, whatever the outside answers.\<close>

lemma createBackup_trace: "\<exists>vs. ev_rel vs w (snd (createBackup e opts w))"
proof (cases "nodes w (nodeId opts)")
  case None
  then have "ev_rel [] w (snd (createBackup e opts w))"
    by (simp add: createBackup_def ev_rel_refl)
  then show ?thesis by (rule exI)
next
  case (Some nd)
  let ?bid = "runId opts w"
  let ?w3 = "started e opts nd w"
  let ?vol = "selectorOf opts"
  let ?f = "artifactName e nd ?vol"
  show ?thesis
  proof (cases "run_exists opts w")
    case False
    have "ev_rel [] w (logLine Info (StartingBackup ?f) (snd (enterRunning e opts ?vol ?f w)))"
      by (rule ev_rel_silent[OF ev_rel_refl]) (simp add: prim_fields enterRunning_fields)
    then have "ev_rel [] w (snd (createBackup e opts w))"
      using createBackup_no_record[OF Some False, of e] by simp
    then show ?thesis by (rule exI)
  next
    case True
    note u = createBackup_unfold[OF Some True, of e]
    have s: "ev_rel [] w ?w3"
      by (rule ev_rel_silent[OF ev_rel_refl]) (simp add: started_fields)
    from ev_rel_tryBlock[OF s, of e nd opts ?vol ?f ?bid] obtain vs where
      t: "ev_rel vs w (snd (tryBlock e nd opts ?vol ?f ?bid ?w3))" by auto
    obtain r w4 where tb: "tryBlock e nd opts ?vol ?f ?bid ?w3 = (r, w4)"
      by (cases "tryBlock e nd opts ?vol ?f ?bid ?w3") auto
    have "ev_rel vs w (snd (createBackup e opts w))"
      using t tb ev_rel_catchBlock[of vs w w4]
      by (cases r) (simp_all add: u)
    then show ?thesis by (rule exI)
  qed
qed

text \<open>The outcome of a run in which connecting, listing and creating the scratch directories succeed.\<close>

lemma createBackup_outcome:
  assumes "nodes w (nodeId opts) = Some nd" "run_exists opts w"
    and "connect_r e = None" "list_r e = Inr entries" "\<And>p. mkdir_r e p = None"
  shows "fst (createBackup e opts w)
           = (case afterLoop e of None \<Rightarrow> Inr (runId opts w) | Some err \<Rightarrow> Inl err)"
proof -
  let ?bid = "runId opts w"
  let ?w3 = "started e opts nd w"
  let ?vol = "selectorOf opts"
  let ?f = "artifactName e nd ?vol"
  from tryBlock_reaches_archive[OF assms(3,4,5), of nd opts ?vol ?f ?bid ?w3]
  obtain w5 where t: "tryBlock e nd opts ?vol ?f ?bid ?w3 = archiveAndUpload e nd opts ?vol ?f ?bid w5"
    by auto
  obtain r w4 where a: "archiveAndUpload e nd opts ?vol ?f ?bid w5 = (r, w4)"
    by (cases "archiveAndUpload e nd opts ?vol ?f ?bid w5") auto
  have "r = afterLoop e"
    using archiveAndUpload_fst[of e nd opts ?vol ?f ?bid w5] a by simp
  then show ?thesis
    using t a by (simp add: createBackup_unfold[OF assms(1,2)] split: option.splits)
qed

text \<open>A run that returns has completed its record.\<close>

lemma createBackup_returned:
  assumes "nodes w (nodeId opts) = Some nd" "run_exists opts w"
    and "fst (createBackup e opts w) = Inr b"
  shows "b = runId opts w
         \<and> (\<exists>r sp sz. upload_r e = Inr sp \<and> stat_r e = Inr sz
               \<and> backupRepo_getById (runId opts w) (snd (createBackup e opts w)) = Some r
               \<and> status r = Completed \<and> progress r = 100 \<and> storage_path r = Some sp
               \<and> size_bytes r = sz)"
proof -
  let ?bid = "runId opts w"
  let ?w3 = "started e opts nd w"
  let ?vol = "selectorOf opts"
  let ?f = "artifactName e nd ?vol"
  obtain r w4 where t: "tryBlock e nd opts ?vol ?f ?bid ?w3 = (r, w4)"
    by (cases "tryBlock e nd opts ?vol ?f ?bid ?w3") auto
  have fin: "finished e nd ?vol ?f ?bid ?w3 r w4"
    using tryBlock_finished[OF frame_refl, of e nd ?vol ?f ?bid ?w3 opts] t by simp
  note u = createBackup_unfold[OF assms(1,2), of e]
  from assms(3) t have r: "r = None" and b: "b = ?bid"
    by (cases r; simp add: u)+
  from fin r obtain w5 sp sz where f5: "frame ?bid ?w3 w5"
    and up: "upload_r e = Inr sp" and st: "stat_r e = Inr sz"
    and w4: "w4 = completeRun e nd ?vol ?f ?bid sp sz w5"
    by (auto simp: finished_def)
  have "backupRepo_getById ?bid w5 \<noteq> None"
    using f5 started_exists[OF assms(2), of e nd] by (simp add: getById_frame)
  then obtain r5 where r5: "backupRepo_getById ?bid w5 = Some r5" by auto
  have "snd (createBackup e opts w) = w4"
    using t r by (simp add: u)
  then show ?thesis
    using b up st r5 unfolding w4 by (simp add: getById_completeRun)
qed

text \<open>
  The downloads and the warnings of a run in which connecting, listing and creating the
  scratch directories succeed, whatever the downloads and the later steps do.
\<close>

lemma createBackup_downloads:
  assumes "nodes w (nodeId opts) = Some nd" "run_exists opts w"
    and "connect_r e = None" "list_r e = Inr entries" "\<And>p. mkdir_r e p = None"
  shows "ev_rel (volumesOf (selectorOf opts) entries) w (snd (createBackup e opts w))
         \<and> warned (runId opts w) e (snd (createBackup e opts w))
              (volumesOf (selectorOf opts) entries)"
proof -
  let ?bid = "runId opts w"
  let ?w3 = "started e opts nd w"
  let ?vol = "selectorOf opts"
  let ?f = "artifactName e nd ?vol"
  let ?vols = "volumesOf ?vol entries"
  note u = createBackup_unfold[OF assms(1,2), of e]
  from tryBlock_reaches_archive[OF assms(3,4,5), of nd opts ?vol ?f ?bid ?w3]
  obtain w5 where t: "tryBlock e nd opts ?vol ?f ?bid ?w3 = archiveAndUpload e nd opts ?vol ?f ?bid w5"
    and e5: "ev_rel ?vols ?w3 w5" and l5: "warned ?bid e w5 ?vols"
    by auto
  obtain r w4 where a: "archiveAndUpload e nd opts ?vol ?f ?bid w5 = (r, w4)"
    by (cases "archiveAndUpload e nd opts ?vol ?f ?bid w5") auto
  have "ev_rel ?vols ?w3 w4"
    using ev_rel_archiveAndUpload[OF e5, of e nd opts ?vol ?f ?bid] a by simp
  then have ev: "ev_rel ?vols w w4"
    by (rule ev_rel_from[rotated]) (simp add: started_fields)
  have fin: "finished e nd ?vol ?f ?bid w5 r w4"
    using archiveAndUpload_finished[OF frame_refl, of e nd ?vol ?f ?bid w5 opts] a by simp
  show ?thesis
  proof (cases r)
    case None
    have w': "snd (createBackup e opts w) = w4"
      using t a None by (simp add: u)
    from fin None obtain w6 sp sz where f6: "frame ?bid w5 w6"
      and w4: "w4 = completeRun e nd ?vol ?f ?bid sp sz w6"
      by (auto simp: finished_def)
    have "set (backup_logs w5) \<subseteq> set (backup_logs w4)"
      using logs_mono[OF f6] completeRun_logs[of w6 e nd ?vol ?f ?bid sp sz] unfolding w4 by blast
    then have "warned ?bid e w4 ?vols" using l5 by (rule warned_mono)
    with ev w' show ?thesis by simp
  next
    case (Some msg)
    have w': "snd (createBackup e opts w) = catchBlock nd ?vol ?bid msg w4"
      using t a Some by (simp add: u)
    have ev': "ev_rel ?vols w (catchBlock nd ?vol ?bid msg w4)"
      using ev by (rule ev_rel_catchBlock)
    from fin Some have "frame ?bid w5 w4" by (simp add: finished_def)
    then have "frame ?bid w5 (catchBlock nd ?vol ?bid msg w4)" by (rule frame_catchBlock)
    then have "set (backup_logs w5) \<subseteq> set (backup_logs (catchBlock nd ?vol ?bid msg w4))"
      by (rule logs_mono)
    then have "warned ?bid e (catchBlock nd ?vol ?bid msg w4) ?vols" using l5 by (rule warned_mono)
    with ev' w' show ?thesis by simp
  qed
qed

text \<open>
  In such a run the status of the record at the end is decided by the steps after the
  loop alone.
\<close>

lemma createBackup_status:
  assumes "nodes w (nodeId opts) = Some nd" "run_exists opts w"
    and "connect_r e = None" "list_r e = Inr entries" "\<And>p. mkdir_r e p = None"
  shows "map_option status (backupRepo_getById (runId opts w) (snd (createBackup e opts w)))
           = Some (if afterLoop e = None then Completed else Failed)"
proof -
  have o: "fst (createBackup e opts w)
             = (case afterLoop e of None \<Rightarrow> Inr (runId opts w) | Some err \<Rightarrow> Inl err)"
    using assms by (rule createBackup_outcome)
  show ?thesis
  proof (cases "afterLoop e")
    case None
    with o have f: "fst (createBackup e opts w) = Inr (runId opts w)" by simp
    from createBackup_returned[OF assms(1,2) f] None show ?thesis by auto
  next
    case (Some err)
    with o have f: "fst (createBackup e opts w) = Inl err" by simp
    from createBackup_failed[OF assms(1,2) f] Some show ?thesis by auto
  qed
qed

text \<open>A listing failure after a successful connect: the session stays open.\<close>

lemma list_failure_leaks:
  assumes "nodes w (nodeId opts) = Some nd" "run_exists opts w"
    and "selectorOf opts = ''all-volumes''"
    and "connect_r e = None" "list_r e = Inl err"
  shows "fst (createBackup e opts w) = Inl err
         \<and> session_open (snd (createBackup e opts w)) = True
         \<and> events (snd (createBackup e opts w))
             = events w @ [EvConnect (host nd),
                           EvList (if truthy (volumes_path nd) then the (volumes_path nd)
                                   else volumesPath e)]"
  using assms(3-5)
  by (simp add: createBackup_unfold[OF assms(1,2)] tryBlock_def connectAndList_def
      catchBlock_def Let_def prim_fields started_fields)

lemma delete_fields:
  "backups (backupRepo_delete i w) = filter (\<lambda>b. backup_id b \<noteq> i) (backups w)"
  "artifacts (backupRepo_delete i w) = artifacts w"
  "events (backupRepo_delete i w) = events w"
  by (simp_all add: backupRepo_delete_def commit_def)

lemma retentionDelete_fields:
  "backups (retentionDelete w b) = filter (\<lambda>r. backup_id r \<noteq> backup_id b) (backups w)"
  "artifacts (retentionDelete w b) = artifacts w"
  "events (retentionDelete w b) = events w"
  by (simp_all add: retentionDelete_def delete_fields prim_fields)

lemma foldl_retentionDelete:
  "backups (foldl retentionDelete w ds)
     = filter (\<lambda>r. backup_id r \<notin> set (map backup_id ds)) (backups w)
   \<and> artifacts (foldl retentionDelete w ds) = artifacts w
   \<and> events (foldl retentionDelete w ds) = events w"
proof (induction ds arbitrary: w)
  case Nil
  then show ?case by simp
next
  case (Cons d ds)
  have "filter (\<lambda>r. backup_id r \<notin> set (map backup_id ds))
          (filter (\<lambda>r. backup_id r \<noteq> backup_id d) (backups w))
        = filter (\<lambda>r. backup_id r \<notin> set (map backup_id (d # ds))) (backups w)"
    by (induction "backups w") auto
  with Cons.IH[of "retentionDelete w d"] show ?case
    by (simp add: retentionDelete_fields)
qed

lemma applyRetention_fields:
  "backups (applyRetention nid stype keep w)
     = filter (\<lambda>r. backup_id r \<notin> set (map backup_id (doomed nid stype keep w))) (backups w)"
  "artifacts (applyRetention nid stype keep w) = artifacts w"
  "events (applyRetention nid stype keep w) = events w"
  by (simp_all add: applyRetention_def doomed_def Let_def foldl_retentionDelete)

lemma candidates_set:
  "set (retentionCandidates nid stype w) = set (completedRuns nid stype w)"
  by (auto simp: retentionCandidates_def backupRepo_getByNode_def completedRuns_def)

lemma candidates_sorted:
  "sorted (map (\<lambda>b. - created_at b) (retentionCandidates nid stype w))"
  by (simp add: retentionCandidates_def)

lemma candidates_distinct:
  "distinct (backups w) \<Longrightarrow> distinct (retentionCandidates nid stype w)"
  by (simp add: retentionCandidates_def backupRepo_getByNode_def)

lemma slice_from_drop: "\<exists>s. slice_from k xs = drop s xs \<and> int (length xs) - int s \<le> max 0 (int (length xs) - k)"
proof (cases "k < 0")
  case True
  then have "slice_from k xs = drop (nat (max (int (length xs) + k) 0)) xs"
    by (simp add: slice_from_def)
  moreover have "int (length xs) - int (nat (max (int (length xs) + k) 0)) \<le> max 0 (int (length xs) - k)"
    using True by auto
  ultimately show ?thesis by blast
next
  case False
  then have "slice_from k xs = drop (nat k) xs" by (simp add: slice_from_def)
  moreover have "int (length xs) - int (nat k) \<le> max 0 (int (length xs) - k)"
    using False by auto
  ultimately show ?thesis by blast
qed

lemma doomed_drop:
  "\<exists>s. doomed nid stype keep w = drop s (retentionCandidates nid stype w)
       \<and> int (length (doomed nid stype keep w))
           \<le> max 0 (int (length (retentionCandidates nid stype w)) - keep)"
proof (cases "int (length (retentionCandidates nid stype w)) > keep")
  case False
  then have "doomed nid stype keep w
               = drop (length (retentionCandidates nid stype w)) (retentionCandidates nid stype w)"
    by (simp add: doomed_def)
  moreover have "int (length (doomed nid stype keep w))
                   \<le> max 0 (int (length (retentionCandidates nid stype w)) - keep)"
    using False by (simp add: doomed_def)
  ultimately show ?thesis by blast
next
  case True
  from slice_from_drop[of keep "retentionCandidates nid stype w"] obtain s where
    s: "slice_from keep (retentionCandidates nid stype w) = drop s (retentionCandidates nid stype w)"
    and l: "int (length (retentionCandidates nid stype w)) - int s
              \<le> max 0 (int (length (retentionCandidates nid stype w)) - keep)"
    by blast
  have "doomed nid stype keep w = drop s (retentionCandidates nid stype w)"
    using True s by (simp add: doomed_def)
  moreover have "int (length (doomed nid stype keep w))
                   \<le> max 0 (int (length (retentionCandidates nid stype w)) - keep)"
    using True s l by (simp add: doomed_def)
  ultimately show ?thesis by blast
qed

text \<open>What retention deletes, for a table whose identifiers are distinct.\<close>

lemma retention_prunes:
  assumes "distinct (map backup_id (backups w))"
  shows "int (length (pruned nid stype keep w))
           \<le> max 0 (int (length (completedRuns nid stype w)) - keep)
         \<and> list_all (\<lambda>b. status b = Completed \<and> node_id b = nid \<and> storage_type b = stype)
             (pruned nid stype keep w)
         \<and> list_all (\<lambda>b. list_all (\<lambda>c. created_at b \<le> created_at c) (retained nid stype keep w))
             (pruned nid stype keep w)"
proof -
  let ?cands = "retentionCandidates nid stype w"
  let ?ds = "doomed nid stype keep w"
  have dw: "distinct (backups w)" and inj: "inj_on backup_id (set (backups w))"
    using assms by (simp_all add: distinct_map)
  have dc: "distinct ?cands" using dw by (rule candidates_distinct)
  have cw: "set ?cands \<subseteq> set (backups w)"
    by (auto simp: candidates_set completedRuns_def)
  from doomed_drop[of nid stype keep w] obtain s where
    ds: "?ds = drop s ?cands"
    and len: "int (length ?ds) \<le> max 0 (int (length ?cands) - keep)"
    by blast
  have dsc: "set ?ds \<subseteq> set ?cands" unfolding ds by (rule set_drop_subset)
  have dd: "distinct ?ds" unfolding ds using dc by simp
  have member: "b \<in> set ?ds" if b: "b \<in> set (backups w)" and i: "backup_id b \<in> set (map backup_id ?ds)" for b
  proof -
    from i obtain d where d: "d \<in> set ?ds" and e: "backup_id d = backup_id b" by auto
    from d dsc cw have "d \<in> set (backups w)" by blast
    with inj b e have "d = b" by (auto dest: inj_onD)
    with d show ?thesis by simp
  qed
  have pmem: "(b \<in> set (pruned nid stype keep w))
                = (b \<in> set (backups w) \<and> backup_id b \<in> set (map backup_id ?ds))" for b
    unfolding pruned_def applyRetention_fields by simp blast
  have pset: "set (pruned nid stype keep w) = set ?ds"
  proof (intro set_eqI iffI)
    fix b assume "b \<in> set (pruned nid stype keep w)"
    then have "b \<in> set (backups w)" and "backup_id b \<in> set (map backup_id ?ds)"
      unfolding pmem by blast+
    then show "b \<in> set ?ds" by (rule member)
  next
    fix b assume b: "b \<in> set ?ds"
    with dsc cw have "b \<in> set (backups w)" by blast
    moreover from b have "backup_id b \<in> set (map backup_id ?ds)" by simp
    ultimately show "b \<in> set (pruned nid stype keep w)" unfolding pmem by blast
  qed
  have pd: "distinct (pruned nid stype keep w)"
    using dw by (simp add: pruned_def)
  have "length (pruned nid stype keep w) = length ?ds"
    using distinct_card[OF pd] distinct_card[OF dd] pset by simp
  moreover have "length ?cands = length (completedRuns nid stype w)"
  proof -
    have dr: "distinct (completedRuns nid stype w)" using dw by (simp add: completedRuns_def)
    show ?thesis
      using distinct_card[OF dc] distinct_card[OF dr] candidates_set[of nid stype w] by simp
  qed
  ultimately have one: "int (length (pruned nid stype keep w))
                          \<le> max 0 (int (length (completedRuns nid stype w)) - keep)"
    using len by simp
  have two: "list_all (\<lambda>b. status b = Completed \<and> node_id b = nid \<and> storage_type b = stype)
               (pruned nid stype keep w)"
    unfolding list_all_iff pset
  proof
    fix b assume "b \<in> set ?ds"
    with dsc have "b \<in> set (completedRuns nid stype w)" unfolding candidates_set by blast
    then show "status b = Completed \<and> node_id b = nid \<and> storage_type b = stype"
      by (simp add: completedRuns_def)
  qed
  have srt: "sorted (map (\<lambda>b. - created_at b) (take s ?cands @ drop s ?cands))"
    using candidates_sorted[of nid stype w] by simp
  have three: "list_all (\<lambda>b. list_all (\<lambda>c. created_at b \<le> created_at c) (retained nid stype keep w))
                 (pruned nid stype keep w)"
    unfolding list_all_iff pset
  proof (intro ballI)
    fix b c
    assume b: "b \<in> set ?ds" and c: "c \<in> set (retained nid stype keep w)"
    from c have cc: "c \<in> set ?cands" and ck: "backup_id c \<notin> set (map backup_id ?ds)"
      unfolding retained_def candidates_set applyRetention_fields by simp_all
    from ck have cn: "c \<notin> set ?ds" by auto
    have "set ?cands = set (take s ?cands) \<union> set (drop s ?cands)"
      by (simp only: set_append[symmetric] append_take_drop_id)
    with cc cn have ct: "c \<in> set (take s ?cands)"
      unfolding ds by blast
    from b have bd: "b \<in> set (drop s ?cands)" unfolding ds .
    from srt have "\<forall>x\<in>set (map (\<lambda>b. - created_at b) (take s ?cands)).
                   \<forall>y\<in>set (map (\<lambda>b. - created_at b) (drop s ?cands)). x \<le> y"
      unfolding map_append sorted_append by blast
    with ct bd have "- created_at c \<le> - created_at b"
      by simp
    then show "created_at b \<le> created_at c" by simp
  qed
  from one two three show ?thesis by blast
qed

lemma delete_hist_ok: "hist_ok w \<Longrightarrow> hist_ok (backupRepo_delete i w)"
  by (simp add: hist_ok_def backupRepo_delete_def commit_def table_inv_def list_all_iff)

lemma retentionDelete_hist_ok: "hist_ok w \<Longrightarrow> hist_ok (retentionDelete w b)"
proof -
  assume h: "hist_ok w"
  have "hist_ok (logLine Info (RetentionDeleting (backup_id b)) w)"
    using h by (simp add: hist_ok_def prim_fields)
  then show ?thesis
    unfolding retentionDelete_def by (rule delete_hist_ok)
qed

lemma foldl_retentionDelete_hist_ok: "hist_ok w \<Longrightarrow> hist_ok (foldl retentionDelete w ds)"
  by (induction ds arbitrary: w) (simp_all add: retentionDelete_hist_ok)

lemma applyRetention_hist_ok: "hist_ok w \<Longrightarrow> hist_ok (applyRetention nid stype keep w)"
  by (simp add: applyRetention_def Let_def foldl_retentionDelete_hist_ok)

lemma deleteBackup_hist_ok: "hist_ok w \<Longrightarrow> hist_ok (snd (deleteBackup e i w))"
proof (cases "backupRepo_getById i w")
  case None
  assume "hist_ok w"
  with None show ?thesis by (simp add: deleteBackup_def)
next
  case (Some b)
  assume h: "hist_ok w"
  let ?w1 = "emit (EvStorageDelete (storage_type b) (filename b)) w"
  let ?w2 = "case backend_delete_r e (storage_type b) (filename b) of
               Some err \<Rightarrow> logLine Warn (FailedToDeleteFile err) ?w1
             | None \<Rightarrow>
                 ?w1\<lparr>artifacts :=
                        filter (\<lambda>a. a \<noteq> (storage_type b, filename b)) (artifacts ?w1)\<rparr>"
  have "backups ?w2 = backups w" and "history ?w2 = history w"
    by (simp_all add: prim_fields split: option.splits)
  with h have "hist_ok ?w2" by (simp add: hist_ok_def)
  then have "hist_ok (backupRepo_delete i ?w2)" by (rule delete_hist_ok)
  then have "hist_ok (logLine Info (DeletedBackup i) (backupRepo_delete i ?w2))"
    by (simp add: hist_ok_def prim_fields)
  with Some show ?thesis by (simp add: deleteBackup_def Let_def)
qed

lemma archiveAndUpload_session:
  "session_open (snd (archiveAndUpload e nd opts volName fname bid w)) = False"
proof -
  have c: "session_open (closeSession bid w) = False"
    by (simp add: closeSession_def prim_fields)
  obtain r1 w1 where s1: "archiveStep e bid (closeSession bid w) = (r1, w1)"
    by (cases "archiveStep e bid (closeSession bid w)") auto
  have a: "session_open (snd (archiveStep e bid w')) = session_open w'" for w'
    by (simp add: archiveStep_def Let_def prim_fields split: option.splits sum.splits)
  have o1: "session_open w1 = False"
    using a[of "closeSession bid w"] c s1 by simp
  obtain r2 w2 where s2: "uploadStep e opts fname bid w1 = (r2, w2)"
    by (cases "uploadStep e opts fname bid w1") auto
  have u: "session_open (snd (uploadStep e opts fname bid w')) = session_open w'" for w'
    by (simp add: uploadStep_def Let_def prim_fields split: sum.splits)
  have o2: "session_open w2 = False"
    using u[of w1] o1 s2 by simp
  obtain r3 w3 where s3: "cleanup e bid fname w2 = (r3, w3)"
    by (cases "cleanup e bid fname w2") auto
  have k: "session_open (snd (cleanup e bid fname w')) = session_open w'" for w'
    by (simp add: cleanup_def Let_def prim_fields split: option.splits)
  have o3: "session_open w3 = False"
    using k[of w2] o2 s3 by simp
  have f: "session_open (completeRun e nd volName fname bid sp sz w3) = False" for sp sz
    using o3 by (simp add: completeRun_def prim_fields)
  show ?thesis
    using s1 s2 s3 o1 o2 o3 f
    by (simp add: archiveAndUpload_def split: sum.splits option.splits)
qed

text \<open>A run that returns has closed its session.\<close>

lemma session_closed_on_return:
  assumes "nodes w (nodeId opts) = Some nd" "run_exists opts w"
    and "fst (createBackup e opts w) = Inr b"
  shows "session_open (snd (createBackup e opts w)) = False"
proof -
  let ?bid = "runId opts w"
  let ?w3 = "started e opts nd w"
  let ?vol = "selectorOf opts"
  let ?f = "artifactName e nd ?vol"
  define vpath where "vpath = (if truthy (volumes_path nd) then the (volumes_path nd) else volumesPath e)"
  obtain r w4 where t: "tryBlock e nd opts ?vol ?f ?bid ?w3 = (r, w4)"
    by (cases "tryBlock e nd opts ?vol ?f ?bid ?w3") auto
  note u = createBackup_unfold[OF assms(1,2), of e]
  from assms(3) t have r: "r = None"
    by (cases r) (simp_all add: u)
  have w': "snd (createBackup e opts w) = w4"
    using t r by (simp add: u)
  have "\<exists>w5. w4 = snd (archiveAndUpload e nd opts ?vol ?f ?bid w5)"
    using t r
    by (auto simp: tryBlock_def Let_def split: prod.splits sum.splits option.splits)
       (metis snd_conv)
  then obtain w5 where "w4 = snd (archiveAndUpload e nd opts ?vol ?f ?bid w5)"
    by blast
  then show ?thesis
    unfolding w' by (simp add: archiveAndUpload_session)
qed

section \<open>The claims about the pipeline and retention\<close>

lemma connect_failure:
  assumes "nodes w (nodeId opts) = Some nd" "run_exists opts w" "connect_r e = Some err"
  shows "fst (createBackup e opts w) = Inl err"
  using assms(3)
  by (simp add: createBackup_unfold[OF assms(1,2)] tryBlock_def connectAndList_def Let_def)

lemma createBackup_failed_webhook:
  assumes "nodes w (nodeId opts) = Some nd" "run_exists opts w"
    and "fst (createBackup e opts w) = Inl msg"
    and "truthy (settings_tbl w ''discord_webhook_url'')"
  shows "last (webhooks (snd (createBackup e opts w)))
           = (WError, ''Backup Failed'', ''**'' @ name nd @ ''** - '' @ selectorOf opts,
              [(''Error'', TextVal (take 200 msg))])"
proof -
  let ?bid = "runId opts w"
  let ?w3 = "started e opts nd w"
  let ?vol = "selectorOf opts"
  let ?f = "artifactName e nd ?vol"
  obtain r w4 where t: "tryBlock e nd opts ?vol ?f ?bid ?w3 = (r, w4)"
    by (cases "tryBlock e nd opts ?vol ?f ?bid ?w3") auto
  have fin: "finished e nd ?vol ?f ?bid ?w3 r w4"
    using tryBlock_finished[OF frame_refl, of e nd ?vol ?f ?bid ?w3 opts] t by simp
  note u = createBackup_unfold[OF assms(1,2), of e]
  from assms(3) t have r: "r = Some msg"
    by (cases r) (simp_all add: u)
  with fin have "frame ?bid ?w3 w4" by (simp add: finished_def)
  then have "settings_tbl w4 = settings_tbl w"
    by (simp add: frame_def started_fields)
  with assms(4) have "truthy (settings_tbl w4 ''discord_webhook_url'')" by simp
  moreover have "snd (createBackup e opts w) = catchBlock nd ?vol ?bid msg w4"
    using t r by (simp add: u)
  ultimately show ?thesis
    by (simp add: catchBlock_def prim_fields)
qed

lemma node0_found: "nodes world0 (nodeId opts0) = Some node0"
  by (simp add: world0_def opts0_def)

lemma runId0: "runId opts0 world0 = 1"
  by (simp add: runId_def opts0_def world0_def)

lemma run_exists0: "run_exists opts0 world0"
  by (simp add: run_exists_def opts0_def)

lemma selector0: "selectorOf opts0 = ''all-volumes''"
  by (simp add: selectorOf_def opts0_def truthy_def)

lemma volumes0: "volumesOf ''all-volumes'' listing0 = [''v1'', uuid0]"
  by (simp add: volumesOf_def volumeDirs_def listing0_def uuid0_def)

text \<open>
  C1. Retention with a retention count of 1 on a table with two completed local runs of
  the node removes the record of the older run and nothing else: no call to a storage
  backend is made and both artifacts are still in storage. Manual deletion of the same
  record calls the delete of the storage backend, after which the artifact is gone, and
  then removes the record.
\<close>

theorem C1_retention_keeps_artifact:
  "map backup_id (backups (applyRetention 1 Local 1 worldR)) = [2, 3]
   \<and> artifacts (applyRetention 1 Local 1 worldR)
       = [(Local, ''alpha-1.tar.gz''), (Local, ''alpha-2.tar.gz'')]
   \<and> events (applyRetention 1 Local 1 worldR) = []
   \<and> fst (deleteBackup env0 1 worldR) = Inr ()
   \<and> map backup_id (backups (snd (deleteBackup env0 1 worldR))) = [2, 3]
   \<and> artifacts (snd (deleteBackup env0 1 worldR)) = [(Local, ''alpha-2.tar.gz'')]
   \<and> events (snd (deleteBackup env0 1 worldR)) = [EvStorageDelete Local ''alpha-1.tar.gz'']"
proof -
  have d: "doomed 1 Local 1 worldR = [row0]"
    by (simp add: doomed_def retentionCandidates_def backupRepo_getByNode_def slice_from_def
        worldR_def world0_def row0_def)
  have r: "map backup_id (backups (applyRetention 1 Local 1 worldR)) = [2, 3]"
    unfolding applyRetention_fields d by (simp add: worldR_def world0_def row0_def)
  have a: "artifacts (applyRetention 1 Local 1 worldR)
             = [(Local, ''alpha-1.tar.gz''), (Local, ''alpha-2.tar.gz'')]"
    and e: "events (applyRetention 1 Local 1 worldR) = []"
    by (simp_all add: applyRetention_fields worldR_def world0_def)
  have g: "backupRepo_getById 1 worldR = Some row0"
    by (simp add: backupRepo_getById_def worldR_def world0_def row0_def)
  have del: "deleteBackup env0 1 worldR
               = (Inr (),
                  logLine Info (DeletedBackup 1)
                    (backupRepo_delete 1
                       ((emit (EvStorageDelete Local ''alpha-1.tar.gz'') worldR)
                          \<lparr>artifacts := [(Local, ''alpha-2.tar.gz'')]\<rparr>)))"
    unfolding deleteBackup_def g
    by (simp add: Let_def env0_def row0_def emit_fields worldR_def world0_def)
  have m: "fst (deleteBackup env0 1 worldR) = Inr ()"
    and b: "map backup_id (backups (snd (deleteBackup env0 1 worldR))) = [2, 3]"
    and c: "artifacts (snd (deleteBackup env0 1 worldR)) = [(Local, ''alpha-2.tar.gz'')]"
    and f: "events (snd (deleteBackup env0 1 worldR)) = [EvStorageDelete Local ''alpha-1.tar.gz'']"
    unfolding del
    by (simp_all add: prim_fields delete_fields worldR_def world0_def row0_def)
  from r a e m b c f show ?thesis by simp
qed

text \<open>
  C2, as the claim states it, fails: in a run in which connecting, listing, every
  download, the archive and the upload succeed, an error raised when the temporary
  archive is removed is re-raised to the caller and the run ends \<^verbatim>\<open>failed\<close>.
\<close>

theorem C2_cleanup_failure_fails_run:
  "connect_r (env0\<lparr>unlink_r := Some ''EPERM''\<rparr>) = None
   \<and> downloadDir_r (env0\<lparr>unlink_r := Some ''EPERM''\<rparr>) ''v1'' = None
   \<and> downloadDir_r (env0\<lparr>unlink_r := Some ''EPERM''\<rparr>) uuid0 = None
   \<and> archive_r (env0\<lparr>unlink_r := Some ''EPERM''\<rparr>) = None
   \<and> upload_r (env0\<lparr>unlink_r := Some ''EPERM''\<rparr>) = Inr ''/srv/data/backups/alpha.tar.gz''
   \<and> fst (createBackup (env0\<lparr>unlink_r := Some ''EPERM''\<rparr>) opts0 world0) = Inl ''EPERM''
   \<and> map_option status
        (backupRepo_getById 1 (snd (createBackup (env0\<lparr>unlink_r := Some ''EPERM''\<rparr>) opts0 world0)))
       = Some Failed"
proof -
  let ?e = "env0\<lparr>unlink_r := Some ''EPERM''\<rparr>"
  have o: "fst (createBackup ?e opts0 world0)
             = (case afterLoop ?e of None \<Rightarrow> Inr (runId opts0 world0) | Some err \<Rightarrow> Inl err)"
    by (rule createBackup_outcome[OF node0_found run_exists0, where entries = listing0])
       (simp_all add: env0_def)
  have a: "afterLoop ?e = Some ''EPERM''"
    by (simp add: afterLoop_def env0_def)
  have f: "fst (createBackup ?e opts0 world0) = Inl ''EPERM''"
    using o a by simp
  from createBackup_failed[OF node0_found run_exists0 f]
  have "map_option status (backupRepo_getById 1 (snd (createBackup ?e opts0 world0))) = Some Failed"
    by (auto simp: runId0)
  with f show ?thesis by (simp add: env0_def)
qed

text \<open>
  C2, amended. In a run of \<^verbatim>\<open>createBackup\<close> in which connecting, listing, the creation of
  the scratch directories, the archive and the upload succeed: when both removals of the
  cleanup succeed, the run returns and its record is \<^verbatim>\<open>completed\<close> with progress 100 and
  the storage path of the upload; when a removal raises an error, that error is handled
  as every other failure of the pipeline is, so the run ends \<^verbatim>\<open>failed\<close> with progress 0
  and the error as its message, and the error is re-raised.
\<close>

theorem C2_cleanup_amended:
  assumes "nodes w (nodeId opts) = Some nd" "run_exists opts w"
    and "connect_r e = None" "list_r e = Inr entries" "\<And>p. mkdir_r e p = None"
    and "archive_r e = None" "stat_r e = Inr sz" "upload_r e = Inr sp"
  shows "(rm_r e = None \<and> unlink_r e = None \<longrightarrow>
            fst (createBackup e opts w) = Inr (runId opts w)
            \<and> (\<exists>r. backupRepo_getById (runId opts w) (snd (createBackup e opts w)) = Some r
                   \<and> status r = Completed \<and> progress r = 100 \<and> storage_path r = Some sp))
         \<and> (rm_r e = Some err \<or> (rm_r e = None \<and> unlink_r e = Some err) \<longrightarrow>
            fst (createBackup e opts w) = Inl err
            \<and> (\<exists>r. backupRepo_getById (runId opts w) (snd (createBackup e opts w)) = Some r
                   \<and> status r = Failed \<and> progress r = 0 \<and> error_message r = Some err))"
proof -
  have o: "fst (createBackup e opts w)
             = (case afterLoop e of None \<Rightarrow> Inr (runId opts w) | Some err \<Rightarrow> Inl err)"
    using assms(1-5) by (rule createBackup_outcome)
  have one: "rm_r e = None \<and> unlink_r e = None \<longrightarrow>
            fst (createBackup e opts w) = Inr (runId opts w)
            \<and> (\<exists>r. backupRepo_getById (runId opts w) (snd (createBackup e opts w)) = Some r
                   \<and> status r = Completed \<and> progress r = 100 \<and> storage_path r = Some sp)"
  proof
    assume c: "rm_r e = None \<and> unlink_r e = None"
    then have "afterLoop e = None"
      using assms(6,7,8) by (simp add: afterLoop_def)
    with o have f: "fst (createBackup e opts w) = Inr (runId opts w)" by simp
    from createBackup_returned[OF assms(1,2) f] assms(8)
    show "fst (createBackup e opts w) = Inr (runId opts w)
            \<and> (\<exists>r. backupRepo_getById (runId opts w) (snd (createBackup e opts w)) = Some r
                   \<and> status r = Completed \<and> progress r = 100 \<and> storage_path r = Some sp)"
      using f by auto
  qed
  have two: "rm_r e = Some err \<or> (rm_r e = None \<and> unlink_r e = Some err) \<longrightarrow>
            fst (createBackup e opts w) = Inl err
            \<and> (\<exists>r. backupRepo_getById (runId opts w) (snd (createBackup e opts w)) = Some r
                   \<and> status r = Failed \<and> progress r = 0 \<and> error_message r = Some err)"
  proof
    assume c: "rm_r e = Some err \<or> (rm_r e = None \<and> unlink_r e = Some err)"
    then have "afterLoop e = Some err"
      using assms(6,7,8) by (auto simp: afterLoop_def)
    with o have f: "fst (createBackup e opts w) = Inl err" by simp
    from createBackup_failed[OF assms(1,2) f] f
    show "fst (createBackup e opts w) = Inl err
            \<and> (\<exists>r. backupRepo_getById (runId opts w) (snd (createBackup e opts w)) = Some r
                   \<and> status r = Failed \<and> progress r = 0 \<and> error_message r = Some err)"
      by simp
  qed
  from one two show ?thesis by (rule conjI)
qed

text \<open>
  C2, amended, at concrete inputs: the run in which every call succeeds, and the same run
  with the removal of the scratch directory failing.
\<close>

theorem C2_cleanup_amended_witness:
  "fst (createBackup env0 opts0 world0) = Inr 1
   \<and> (\<exists>r. backupRepo_getById 1 (snd (createBackup env0 opts0 world0)) = Some r
          \<and> status r = Completed \<and> progress r = 100
          \<and> storage_path r = Some ''/srv/data/backups/alpha.tar.gz'')
   \<and> fst (createBackup (env0\<lparr>rm_r := Some ''EBUSY''\<rparr>) opts0 world0) = Inl ''EBUSY''
   \<and> (\<exists>r. backupRepo_getById 1 (snd (createBackup (env0\<lparr>rm_r := Some ''EBUSY''\<rparr>) opts0 world0))
            = Some r
          \<and> status r = Failed \<and> progress r = 0 \<and> error_message r = Some ''EBUSY'')"
proof -
  have a: "connect_r env0 = None" "list_r env0 = Inr listing0" "\<And>p. mkdir_r env0 p = None"
    "archive_r env0 = None" "stat_r env0 = Inr 2048"
    "upload_r env0 = Inr ''/srv/data/backups/alpha.tar.gz''"
    "rm_r env0 = None" "unlink_r env0 = None"
    by (simp_all add: env0_def)
  have b: "connect_r (env0\<lparr>rm_r := Some ''EBUSY''\<rparr>) = None"
    "list_r (env0\<lparr>rm_r := Some ''EBUSY''\<rparr>) = Inr listing0"
    "\<And>p. mkdir_r (env0\<lparr>rm_r := Some ''EBUSY''\<rparr>) p = None"
    "archive_r (env0\<lparr>rm_r := Some ''EBUSY''\<rparr>) = None"
    "stat_r (env0\<lparr>rm_r := Some ''EBUSY''\<rparr>) = Inr 2048"
    "upload_r (env0\<lparr>rm_r := Some ''EBUSY''\<rparr>) = Inr ''/srv/data/backups/alpha.tar.gz''"
    "rm_r (env0\<lparr>rm_r := Some ''EBUSY''\<rparr>) = Some ''EBUSY''"
    by (simp_all add: env0_def)
  show ?thesis
    using C2_cleanup_amended[OF node0_found run_exists0 a(1-6), of "''EBUSY''"]
      C2_cleanup_amended[OF node0_found run_exists0 b(1-6), of "''EBUSY''"]
      a(7,8) b(7)
    by (simp add: runId0)
qed

text \<open>
  C3, as the claim states it, fails: a connection error whose message has 201 characters
  is recorded in full as the error message of the failed run.
\<close>

theorem C3_error_message_not_truncated:
  "length (replicate 201 (CHR ''x'')) = 201
   \<and> fst (createBackup (env0\<lparr>connect_r := Some (replicate 201 (CHR ''x''))\<rparr>) opts0 world0)
       = Inl (replicate 201 (CHR ''x''))
   \<and> map_option status
        (backupRepo_getById 1
           (snd (createBackup (env0\<lparr>connect_r := Some (replicate 201 (CHR ''x''))\<rparr>) opts0 world0)))
       = Some Failed
   \<and> map_option error_message
        (backupRepo_getById 1
           (snd (createBackup (env0\<lparr>connect_r := Some (replicate 201 (CHR ''x''))\<rparr>) opts0 world0)))
       = Some (Some (replicate 201 (CHR ''x'')))"
proof -
  let ?e = "env0\<lparr>connect_r := Some (replicate 201 (CHR ''x''))\<rparr>"
  have f: "fst (createBackup ?e opts0 world0) = Inl (replicate 201 (CHR ''x''))"
    by (rule connect_failure[OF node0_found run_exists0]) simp
  from createBackup_failed[OF node0_found run_exists0 f] obtain r where
    "backupRepo_getById 1 (snd (createBackup ?e opts0 world0)) = Some r"
    "status r = Failed" "error_message r = Some (replicate 201 (CHR ''x''))"
    by (auto simp: runId0)
  with f show ?thesis by simp
qed

text \<open>
  C3, amended. When a run of \<^verbatim>\<open>createBackup\<close> fails after it has entered \<^verbatim>\<open>running\<close>
  (the node exists, and a record handed in by its identifier is in the table), its record
  ends with status \<^verbatim>\<open>failed\<close>, progress 0 and the whole message of the error as its error
  message; the failure notification, posted when a webhook is configured, is the one that
  carries the first 200 characters of the message.
\<close>

theorem C3_failed_run_amended:
  assumes "nodes w (nodeId opts) = Some nd" "run_exists opts w"
    and "fst (createBackup e opts w) = Inl msg"
  shows "(\<exists>r. backupRepo_getById (runId opts w) (snd (createBackup e opts w)) = Some r
             \<and> status r = Failed \<and> progress r = 0 \<and> error_message r = Some msg)
         \<and> (truthy (settings_tbl w ''discord_webhook_url'') \<longrightarrow>
              last (webhooks (snd (createBackup e opts w)))
                = (WError, ''Backup Failed'', ''**'' @ name nd @ ''** - '' @ selectorOf opts,
                   [(''Error'', TextVal (take 200 msg))]))"
  using createBackup_failed[OF assms] createBackup_failed_webhook[OF assms]
  by blast

text \<open>
  C3, amended, at a concrete input: the upload fails with a message of 250 characters.
\<close>

theorem C3_failed_run_amended_witness:
  "(\<exists>r. backupRepo_getById 1
           (snd (createBackup (env0\<lparr>upload_r := Inl (replicate 250 (CHR ''u''))\<rparr>) opts0 world0))
          = Some r
        \<and> status r = Failed \<and> progress r = 0
        \<and> error_message r = Some (replicate 250 (CHR ''u'')))
   \<and> last (webhooks
        (snd (createBackup (env0\<lparr>upload_r := Inl (replicate 250 (CHR ''u''))\<rparr>) opts0 world0)))
       = (WError, ''Backup Failed'', ''**alpha** - all-volumes'',
          [(''Error'', TextVal (replicate 200 (CHR ''u'')))])"
proof -
  let ?e = "env0\<lparr>upload_r := Inl (replicate 250 (CHR ''u''))\<rparr>"
  have o: "fst (createBackup ?e opts0 world0)
             = (case afterLoop ?e of None \<Rightarrow> Inr (runId opts0 world0) | Some err \<Rightarrow> Inl err)"
    by (rule createBackup_outcome[OF node0_found run_exists0, where entries = listing0])
       (simp_all add: env0_def)
  have a: "afterLoop ?e = Some (replicate 250 (CHR ''u''))"
    by (simp add: afterLoop_def env0_def)
  have f: "fst (createBackup ?e opts0 world0) = Inl (replicate 250 (CHR ''u''))"
    using o a by simp
  have t: "truthy (settings_tbl world0 ''discord_webhook_url'')"
    by (simp add: world0_def truthy_def)
  have k: "take 200 (replicate 250 (CHR ''u'')) = replicate 200 (CHR ''u'')"
    by simp
  show ?thesis
    using C3_failed_run_amended[OF node0_found run_exists0 f] t
    by (simp add: runId0 selector0 node0_def k)
qed

text \<open>
  C4. A run on all volumes in which the connection to the node succeeds and the listing
  of the volumes directory fails: the error reaches the caller, the only calls made are
  the connect and the listing, and the session is still open when the run has ended.
\<close>

theorem C4_list_failure_leaves_session_open:
  "fst (createBackup (env0\<lparr>list_r := Inl ''No such file''\<rparr>) opts0 world0) = Inl ''No such file''
   \<and> session_open (snd (createBackup (env0\<lparr>list_r := Inl ''No such file''\<rparr>) opts0 world0)) = True
   \<and> events (snd (createBackup (env0\<lparr>list_r := Inl ''No such file''\<rparr>) opts0 world0))
       = [EvConnect ''10.0.0.5'', EvList ''/var/lib/pterodactyl/volumes'']"
proof -
  let ?e = "env0\<lparr>list_r := Inl ''No such file''\<rparr>"
  have c: "connect_r ?e = None" and l: "list_r ?e = Inl ''No such file''"
    by (simp_all add: env0_def)
  from list_failure_leaks[OF node0_found run_exists0 selector0 c l]
  show ?thesis
    by (simp add: node0_def truthy_def env0_def world0_def)
qed

text \<open>
  C5. Take a table that satisfies the invariant now and satisfied it in every earlier
  state, whose identifiers are below the next identifier, and a call of \<^verbatim>\<open>createBackup\<close>
  whose record, if one is handed in, is \<^verbatim>\<open>pending\<close>. Then, whatever the outside answers,
  the table satisfies the invariant after every statement of the run that writes to it,
  and at the end: for every record, the storage path is set if and only if the status is
  \<^verbatim>\<open>completed\<close>, if and only if the progress is 100. The same holds after every write of
  a manual deletion and of retention.
\<close>

theorem C5_record_invariant:
  assumes "table_inv (backups w)" "list_all table_inv (history w)"
    and "fresh_ids w" "supplied_pending opts w"
  shows "list_all table_inv (history (snd (createBackup e opts w)))
         \<and> table_inv (backups (snd (createBackup e opts w)))
         \<and> list_all table_inv (history (snd (deleteBackup e i w)))
         \<and> table_inv (backups (snd (deleteBackup e i w)))
         \<and> list_all table_inv (history (applyRetention nid stype keep w))
         \<and> table_inv (backups (applyRetention nid stype keep w))"
proof -
  have h: "hist_ok w" using assms(1,2) by (simp add: hist_ok_def)
  then have "hist_ok (snd (createBackup e opts w))"
    using assms(3,4) by (rule createBackup_hist_ok)
  moreover have "hist_ok (snd (deleteBackup e i w))"
    using h by (rule deleteBackup_hist_ok)
  moreover have "hist_ok (applyRetention nid stype keep w)"
    using h by (rule applyRetention_hist_ok)
  ultimately show ?thesis by (simp add: hist_ok_def)
qed

text \<open>
  C5 at a concrete input: a table with a completed record and a pending record; a run on
  the pending record in which every call succeeds, the deletion of the completed record,
  and retention with retention count 0.
\<close>

theorem C5_record_invariant_witness:
  "list_all table_inv (history (snd (createBackup env0 opts1 world1)))
   \<and> table_inv (backups (snd (createBackup env0 opts1 world1)))
   \<and> list_all table_inv (history (snd (deleteBackup env0 1 world1)))
   \<and> table_inv (backups (snd (deleteBackup env0 1 world1)))
   \<and> list_all table_inv (history (applyRetention 1 Local 0 world1))
   \<and> table_inv (backups (applyRetention 1 Local 0 world1))"
proof -
  have a: "table_inv (backups world1)"
    by (simp add: table_inv_def run_inv_def world1_def world0_def row0_def)
  have b: "list_all table_inv (history world1)"
    by (simp add: world1_def world0_def)
  have c: "fresh_ids world1"
    by (simp add: fresh_ids_def world1_def world0_def row0_def)
  have d: "supplied_pending opts1 world1"
    by (simp add: supplied_pending_def opts1_def world1_def world0_def row0_def)
  show ?thesis using a b c d by (rule C5_record_invariant)
qed

text \<open>
  C6. On a table whose identifiers are distinct, retention with retention count \<open>keep\<close>
  for a node and a storage kind removes at most as many records as there are completed
  runs of that node and storage kind beyond \<open>keep\<close> (none when there are not more than
  \<open>keep\<close>); every record it removes is a completed run of that node and storage kind; and
  every record it removes was created no later than every completed run of that node and
  storage kind that it keeps.
\<close>

theorem C6_retention_prunes_oldest_completed:
  assumes "distinct (map backup_id (backups w))"
  shows "int (length (pruned nid stype keep w))
           \<le> max 0 (int (length (completedRuns nid stype w)) - keep)
         \<and> list_all (\<lambda>b. status b = Completed \<and> node_id b = nid \<and> storage_type b = stype)
             (pruned nid stype keep w)
         \<and> list_all (\<lambda>b. list_all (\<lambda>c. created_at b \<le> created_at c) (retained nid stype keep w))
             (pruned nid stype keep w)"
  using assms by (rule retention_prunes)

text \<open>
  C6 at a concrete input: two completed local runs and a running one, retention count 1;
  the older completed run is the one removed.
\<close>

theorem C6_retention_prunes_oldest_completed_witness:
  "int (length (pruned 1 Local 1 worldR)) \<le> max 0 (int (length (completedRuns 1 Local worldR)) - 1)
   \<and> list_all (\<lambda>b. status b = Completed \<and> node_id b = 1 \<and> storage_type b = Local)
       (pruned 1 Local 1 worldR)
   \<and> list_all (\<lambda>b. list_all (\<lambda>c. created_at b \<le> created_at c) (retained 1 Local 1 worldR))
       (pruned 1 Local 1 worldR)
   \<and> map backup_id (pruned 1 Local 1 worldR) = [1]
   \<and> map backup_id (retained 1 Local 1 worldR) = [2]"
proof -
  have i: "distinct (map backup_id (backups worldR))"
    by (simp add: worldR_def world0_def row0_def)
  have d: "doomed 1 Local 1 worldR = [row0]"
    by (simp add: doomed_def retentionCandidates_def backupRepo_getByNode_def slice_from_def
        worldR_def world0_def row0_def)
  have b: "backups (applyRetention 1 Local 1 worldR) = tl (backups worldR)"
    unfolding applyRetention_fields d by (simp add: worldR_def world0_def row0_def)
  have p: "map backup_id (pruned 1 Local 1 worldR) = [1]"
    unfolding pruned_def b by (simp add: worldR_def world0_def row0_def)
  have r: "map backup_id (retained 1 Local 1 worldR) = [2]"
    unfolding retained_def completedRuns_def b by (simp add: worldR_def world0_def row0_def)
  show ?thesis
    using C6_retention_prunes_oldest_completed[OF i, of 1 Local 1] p r by simp
qed

text \<open>
  C7. Whatever the outside answers, in the calls a run of \<^verbatim>\<open>createBackup\<close> makes, every
  query and every signal to the server management goes to a volume whose name has the
  form of a server identifier, so none is made for a volume whose name has not; and every
  stop signal is followed by the download of its volume and, after that download, by a
  start signal for the same volume, whether the download succeeds or fails.
\<close>

theorem C7_workload_state_calls:
  "\<exists>es. events (snd (createBackup e opts w)) = events w @ es
        \<and> list_all isUuid (ptero_vols es) \<and> stop_followed es"
  using createBackup_trace[of w e opts] by (auto simp: ev_rel_def trace_ok_def)

text \<open>
  C7 at a concrete input: of the two volumes, the one named like a server identifier is
  running; it is stopped, downloaded (the download fails) and started, and no call to the
  server management is made for the other.
\<close>

theorem C7_workload_state_calls_witness:
  "(\<exists>es. events (snd (createBackup (env0\<lparr>downloadDir_r := (\<lambda>v. Some ''ETIMEDOUT'')\<rparr>) opts0 world0))
           = events world0 @ es
         \<and> list_all isUuid (ptero_vols es) \<and> stop_followed es)
   \<and> events (snd (createBackup (env0\<lparr>downloadDir_r := (\<lambda>v. Some ''ETIMEDOUT'')\<rparr>) opts0 world0))
       = [EvConnect ''10.0.0.5'', EvList ''/var/lib/pterodactyl/volumes'',
          EvMkdir (TempDir 1), EvMkdir (VolDir 1 ''v1''),
          EvDownloadDir ''/var/lib/pterodactyl/volumes'' ''v1'',
          EvMkdir (VolDir 1 uuid0), EvGetServerState uuid0, EvSetServerState uuid0 Stop,
          EvGetServerState uuid0, EvGetServerState uuid0,
          EvDownloadDir ''/var/lib/pterodactyl/volumes'' uuid0,
          EvSetServerState uuid0 Start, EvEnd, EvArchive, EvStat,
          EvUpload Local ''alpha-all-volumes-2024-01-01T00-00-00-000Z.tar.gz'',
          EvRm (TempDir 1),
          EvUnlink (TempFile ''alpha-all-volumes-2024-01-01T00-00-00-000Z.tar.gz'')]"
proof -
  let ?e = "env0\<lparr>downloadDir_r := (\<lambda>v. Some ''ETIMEDOUT'')\<rparr>"
  have u: "isUuid uuid0"
    by (simp add: isUuid_def uuid0_def isHexDigit_def)
  have v: "\<not> isUuid ''v1''"
    by (simp add: isUuid_def)
  have d: "volumeDirs listing0 = [''v1'', uuid0]"
    by (simp add: volumeDirs_def listing0_def uuid0_def)
  have a: "artifactName ?e node0 ''all-volumes''
             = ''alpha-all-volumes-2024-01-01T00-00-00-000Z.tar.gz''"
    by (simp add: artifactName_def env0_def node0_def)
  have twelve: "(12::nat) = Suc (Suc (Suc (Suc (Suc (Suc (Suc (Suc (Suc (Suc (Suc (Suc 0)))))))))))"
    by simp
  have ev: "events (snd (createBackup ?e opts0 world0))
       = [EvConnect ''10.0.0.5'', EvList ''/var/lib/pterodactyl/volumes'',
          EvMkdir (TempDir 1), EvMkdir (VolDir 1 ''v1''),
          EvDownloadDir ''/var/lib/pterodactyl/volumes'' ''v1'',
          EvMkdir (VolDir 1 uuid0), EvGetServerState uuid0, EvSetServerState uuid0 Stop,
          EvGetServerState uuid0, EvGetServerState uuid0,
          EvDownloadDir ''/var/lib/pterodactyl/volumes'' uuid0,
          EvSetServerState uuid0 Start, EvEnd, EvArchive, EvStat,
          EvUpload Local ''alpha-all-volumes-2024-01-01T00-00-00-000Z.tar.gz'',
          EvRm (TempDir 1),
          EvUnlink (TempFile ''alpha-all-volumes-2024-01-01T00-00-00-000Z.tar.gz'')]"
    unfolding createBackup_unfold[OF node0_found run_exists0] selector0 runId0 a
    by (simp add: tryBlock_def connectAndList_def Let_def env0_def node0_def truthy_def d
        processVolume_def stopPhase_def u v safeStop_def twelve downloadPhase_def startPhase_def
        safeStart_def archiveAndUpload_def closeSession_def archiveStep_def uploadStep_def
        cleanup_def completeRun_def prim_fields started_fields world0_def opts0_def)
  show ?thesis
    using C7_workload_state_calls[of ?e opts0 world0] ev by simp
qed

text \<open>
  C8. Take a run of \<^verbatim>\<open>createBackup\<close> that reaches the loop over its volumes: the node
  exists, a record handed in by its identifier is in the table, and connecting, listing
  and the creation of the scratch directories succeed. Whatever the downloads and the
  later steps do:

  \<^item> the volumes downloaded are the volumes of the run, each of them and in their order,
    so a download that fails does not keep the pipeline from the volumes after it;

  \<^item> every volume whose download failed has its warning, with the message of the error,
    in the log of the run;

  \<^item> the downloads have no part in how the run ends: with any other outcomes \<open>d\<close> of the
    downloads, all of them succeeding for one, the run returns or raises the same and
    leaves its record with the same status;

  \<^item> so when the steps after the loop succeed (the archive and the reading of its size,
    the upload, the removal of the scratch directory and of the temporary archive), the
    run returns its identifier and its record is \<^verbatim>\<open>completed\<close>, however many downloads
    failed.
\<close>

theorem C8_download_failure_recovered:
  assumes "nodes w (nodeId opts) = Some nd" "run_exists opts w"
    and "connect_r e = None" "list_r e = Inr entries" "\<And>p. mkdir_r e p = None"
  shows "(\<exists>es. events (snd (createBackup e opts w)) = events w @ es
              \<and> downloads es = volumesOf (selectorOf opts) entries)
         \<and> warned (runId opts w) e (snd (createBackup e opts w))
               (volumesOf (selectorOf opts) entries)
         \<and> fst (createBackup (e\<lparr>downloadDir_r := d\<rparr>) opts w) = fst (createBackup e opts w)
         \<and> map_option status
               (backupRepo_getById (runId opts w)
                  (snd (createBackup (e\<lparr>downloadDir_r := d\<rparr>) opts w)))
             = map_option status
                 (backupRepo_getById (runId opts w) (snd (createBackup e opts w)))
         \<and> (archive_r e = None \<and> stat_r e = Inr sz \<and> upload_r e = Inr sp
              \<and> rm_r e = None \<and> unlink_r e = None \<longrightarrow>
              fst (createBackup e opts w) = Inr (runId opts w)
              \<and> (\<exists>r. backupRepo_getById (runId opts w) (snd (createBackup e opts w)) = Some r
                     \<and> status r = Completed))"
proof -
  let ?e' = "e\<lparr>downloadDir_r := d\<rparr>"
  have a': "connect_r ?e' = None" "list_r ?e' = Inr entries" "\<And>p. mkdir_r ?e' p = None"
    using assms(3-5) by simp_all
  have al: "afterLoop ?e' = afterLoop e"
    by (simp add: afterLoop_def split: option.splits sum.splits)
  have dl: "ev_rel (volumesOf (selectorOf opts) entries) w (snd (createBackup e opts w))
           \<and> warned (runId opts w) e (snd (createBackup e opts w))
                (volumesOf (selectorOf opts) entries)"
    using assms by (rule createBackup_downloads)
  then have one: "\<exists>es. events (snd (createBackup e opts w)) = events w @ es
                \<and> downloads es = volumesOf (selectorOf opts) entries"
    by (auto simp: ev_rel_def)
  have o: "fst (createBackup e opts w)
          = (case afterLoop e of None \<Rightarrow> Inr (runId opts w) | Some err \<Rightarrow> Inl err)"
    using assms by (rule createBackup_outcome)
  have o': "fst (createBackup ?e' opts w)
          = (case afterLoop ?e' of None \<Rightarrow> Inr (runId opts w) | Some err \<Rightarrow> Inl err)"
    using assms(1,2) a' by (rule createBackup_outcome)
  have same: "fst (createBackup ?e' opts w) = fst (createBackup e opts w)"
    unfolding o o' al ..
  have st: "map_option status (backupRepo_getById (runId opts w) (snd (createBackup e opts w)))
              = Some (if afterLoop e = None then Completed else Failed)"
    using assms by (rule createBackup_status)
  have st': "map_option status (backupRepo_getById (runId opts w) (snd (createBackup ?e' opts w)))
              = Some (if afterLoop ?e' = None then Completed else Failed)"
    using assms(1,2) a' by (rule createBackup_status)
  have same_status:
    "map_option status (backupRepo_getById (runId opts w) (snd (createBackup ?e' opts w)))
       = map_option status (backupRepo_getById (runId opts w) (snd (createBackup e opts w)))"
    unfolding st st' al ..
  have fin: "archive_r e = None \<and> stat_r e = Inr sz \<and> upload_r e = Inr sp
              \<and> rm_r e = None \<and> unlink_r e = None \<longrightarrow>
              fst (createBackup e opts w) = Inr (runId opts w)
              \<and> (\<exists>r. backupRepo_getById (runId opts w) (snd (createBackup e opts w)) = Some r
                     \<and> status r = Completed)"
  proof
    assume c: "archive_r e = None \<and> stat_r e = Inr sz \<and> upload_r e = Inr sp
               \<and> rm_r e = None \<and> unlink_r e = None"
    then have "afterLoop e = None"
      by (simp add: afterLoop_def)
    with o have f: "fst (createBackup e opts w) = Inr (runId opts w)" by simp
    have "\<exists>r. backupRepo_getById (runId opts w) (snd (createBackup e opts w)) = Some r
                \<and> status r = Completed"
      using createBackup_returned[OF assms(1,2) f] by blast
    with f show "fst (createBackup e opts w) = Inr (runId opts w)
              \<and> (\<exists>r. backupRepo_getById (runId opts w) (snd (createBackup e opts w)) = Some r
                     \<and> status r = Completed)"
      by simp
  qed
  from one dl same same_status fin show ?thesis by blast
qed

text \<open>
  C8 at a concrete input, the scenario of two volumes of which the download of the first
  fails and every other call succeeds: both volumes are downloaded, the warning for the
  first is in the log of the run, the run ends as the run in which both downloads succeed
  does, and it is \<^verbatim>\<open>completed\<close>.
\<close>

theorem C8_download_failure_recovered_witness:
  "(\<exists>es. events
             (snd (createBackup
                     (env0\<lparr>downloadDir_r := (\<lambda>v. if v = ''v1'' then Some ''ECONNRESET'' else None)\<rparr>)
                     opts0 world0)) = es
          \<and> downloads es = [''v1'', uuid0])
   \<and> (1, Warn, FailedToDownload ''v1'' ''ECONNRESET'')
       \<in> set (backup_logs
                (snd (createBackup
                        (env0\<lparr>downloadDir_r := (\<lambda>v. if v = ''v1'' then Some ''ECONNRESET'' else None)\<rparr>)
                        opts0 world0)))
   \<and> fst (createBackup env0 opts0 world0)
       = fst (createBackup
                (env0\<lparr>downloadDir_r := (\<lambda>v. if v = ''v1'' then Some ''ECONNRESET'' else None)\<rparr>)
                opts0 world0)
   \<and> fst (createBackup
          (env0\<lparr>downloadDir_r := (\<lambda>v. if v = ''v1'' then Some ''ECONNRESET'' else None)\<rparr>)
          opts0 world0) = Inr 1
   \<and> (\<exists>r. backupRepo_getById 1
            (snd (createBackup
                    (env0\<lparr>downloadDir_r := (\<lambda>v. if v = ''v1'' then Some ''ECONNRESET'' else None)\<rparr>)
                    opts0 world0)) = Some r
          \<and> status r = Completed)"
proof -
  let ?e = "env0\<lparr>downloadDir_r := (\<lambda>v. if v = ''v1'' then Some ''ECONNRESET'' else None)\<rparr>"
  have a: "connect_r ?e = None" "list_r ?e = Inr listing0" "\<And>p. mkdir_r ?e p = None"
    by (simp_all add: env0_def)
  have b: "archive_r ?e = None" "stat_r ?e = Inr 2048"
    "upload_r ?e = Inr ''/srv/data/backups/alpha.tar.gz''"
    "rm_r ?e = None" "unlink_r ?e = None"
    by (simp_all add: env0_def)
  have d: "downloadDir_r ?e ''v1'' = Some ''ECONNRESET''"
    by simp
  have all_ok: "?e\<lparr>downloadDir_r := (\<lambda>v. None)\<rparr> = env0"
    by (simp add: env0_def)
  have w0: "events world0 = []"
    by (simp add: world0_def)
  have "(\<exists>es. events (snd (createBackup ?e opts0 world0)) = events world0 @ es
              \<and> downloads es = volumesOf (selectorOf opts0) listing0)
         \<and> warned (runId opts0 world0) ?e (snd (createBackup ?e opts0 world0))
               (volumesOf (selectorOf opts0) listing0)
         \<and> fst (createBackup (?e\<lparr>downloadDir_r := (\<lambda>v. None)\<rparr>) opts0 world0)
             = fst (createBackup ?e opts0 world0)
         \<and> map_option status
               (backupRepo_getById (runId opts0 world0)
                  (snd (createBackup (?e\<lparr>downloadDir_r := (\<lambda>v. None)\<rparr>) opts0 world0)))
             = map_option status
                 (backupRepo_getById (runId opts0 world0) (snd (createBackup ?e opts0 world0)))
         \<and> (archive_r ?e = None \<and> stat_r ?e = Inr 2048
              \<and> upload_r ?e = Inr ''/srv/data/backups/alpha.tar.gz''
              \<and> rm_r ?e = None \<and> unlink_r ?e = None \<longrightarrow>
              fst (createBackup ?e opts0 world0) = Inr (runId opts0 world0)
              \<and> (\<exists>r. backupRepo_getById (runId opts0 world0)
                        (snd (createBackup ?e opts0 world0)) = Some r
                     \<and> status r = Completed))"
    by (rule C8_download_failure_recovered[OF node0_found run_exists0 a])
  then show ?thesis
    unfolding all_ok using b d
    by (simp add: runId0 selector0 volumes0 warned_def w0)
qed


end
